theory Spec2Isabelle
  imports Complex_Main "HOL-Library.Sublist"
begin

section \<open>Python values and failures\<close>

text \<open>
  The exceptions the modelled code can raise: an index out of range, \<open>reduce\<close> of an
  empty sequence without an initial value, and integer division by zero.
\<close>

datatype error = IndexError | TypeError | ZeroDivisionError

text \<open>
  Python's index normalisation for a sequence of length \<open>n\<close>: a negative index counts
  from the end, and anything outside \<open>-n .. n-1\<close> is out of range.
\<close>

definition py_index :: "int \<Rightarrow> nat \<Rightarrow> nat option" where
  "py_index i n =
     (let j = (if i < 0 then int n + i else i)
      in if 0 \<le> j \<and> j < int n then Some (nat j) else None)"

text \<open>\<open>xs[i]\<close>\<close>

definition py_getitem :: "'a list \<Rightarrow> int \<Rightarrow> error + 'a" where
  "py_getitem xs i =
     (case py_index i (length xs) of
        None \<Rightarrow> Inl IndexError
      | Some j \<Rightarrow> Inr (xs ! j))"

text \<open>\<open>xs[i] = v\<close>, returning the updated list\<close>

definition py_setitem :: "'a list \<Rightarrow> int \<Rightarrow> 'a \<Rightarrow> error + 'a list" where
  "py_setitem xs i v =
     (case py_index i (length xs) of
        None \<Rightarrow> Inl IndexError
      | Some j \<Rightarrow> Inr (xs[j := v]))"

text \<open>\<open>xs[i:]\<close>: a slice never raises; a negative start counts from the end.\<close>

definition py_slice_from :: "'a list \<Rightarrow> int \<Rightarrow> 'a list" where
  "py_slice_from xs i =
     (if i < 0 then drop (nat (int (length xs) + i)) xs else drop (nat i) xs)"

text \<open>\<open>''.join(xs)\<close> and \<open>s.startswith(p)\<close>\<close>

definition join :: "string list \<Rightarrow> string" where
  "join xs = concat xs"

definition startswith :: "string \<Rightarrow> string \<Rightarrow> bool" where
  "startswith s p = prefix p s"

section \<open>The highlighter\<close>

text \<open>
  A character row is a list of cells, each cell a string of one or more characters; the
  truth matrix is a list of rows of booleans. The rows of a truth matrix are taken to be
  distinct objects, so that writing one row leaves the others as they are.
\<close>

type_synonym charRow = "string list"
type_synonym charMatrix = "string list list"
type_synonym truthMatrix = "bool list list"

text \<open>\<open>truthMatrix[row][i] = True\<close>\<close>

definition set_truth :: "truthMatrix \<Rightarrow> int \<Rightarrow> int \<Rightarrow> error + truthMatrix" where
  "set_truth tm row i =
     (case py_getitem tm row of
        Inl e \<Rightarrow> Inl e
      | Inr r \<Rightarrow>
          (case py_setitem r i True of
             Inl e \<Rightarrow> Inl e
           | Inr r' \<Rightarrow> py_setitem tm row r'))"

text \<open>
  The inner loop of \<open>highlightRow\<close>, run once a match is found at cell \<open>i\<close>:
  \<^verbatim>\<open>
  while len(token):
      truthMatrix[row][i] = True
      token = token[len(charRow[i]):]
      i = i + 1
  \<close>
  It returns the truth matrix and the value of \<open>i\<close> after the loop.
\<close>

function highlightRow_mark ::
  "charRow \<Rightarrow> nat \<Rightarrow> truthMatrix \<Rightarrow> string \<Rightarrow> int \<Rightarrow> error + (truthMatrix \<times> int)" where
  "highlightRow_mark charRow row tm token i =
     (if length token \<noteq> 0 then
        (case set_truth tm (int row) i of
           Inl e \<Rightarrow> Inl e
         | Inr tm' \<Rightarrow>
             (case py_getitem charRow i of
                Inl e \<Rightarrow> Inl e
              | Inr cell \<Rightarrow>
                  highlightRow_mark charRow row tm'
                    (py_slice_from token (int (length cell))) (i + 1)))
      else Inr (tm, i))"
  by pat_completeness auto
termination
  by (relation "measure (\<lambda>(charRow, row, tm, token, i). nat (int (length charRow) - i))")
     (auto simp: py_getitem_def py_index_def Let_def split: if_splits option.splits)

lemma highlightRow_mark_mono:
  "highlightRow_mark charRow row tm token i = Inr (tm', i') \<Longrightarrow> i \<le> i'"
proof (induction charRow row tm token i rule: highlightRow_mark.induct)
  case (1 charRow row tm token i)
  show ?case
  proof (cases "length token \<noteq> 0")
    case False
    with "1.prems" show ?thesis by simp
  next
    case True
    from True "1.prems" obtain tm1 cell where
      s: "set_truth tm (int row) i = Inr tm1" and
      g: "py_getitem charRow i = Inr cell" and
      r: "highlightRow_mark charRow row tm1 (py_slice_from token (int (length cell))) (i + 1)
            = Inr (tm', i')"
      by (auto split: sum.splits)
    from "1.IH"[OF True s g r] show ?thesis by simp
  qed
qed

text \<open>
  The outer loop of \<open>highlightRow\<close>, from scan position \<open>i\<close>:
  \<^verbatim>\<open>
  while i < len(charRow):
      if len(tokens) == 0:
          break
      token = tokens[0]
      if ''.join(charRow[i:]).startswith(token):
          <inner loop>
          if not forceSpace:
              i = i - 1
          tokens = tokens[1:]
      i = i + 1
  \<close>
  It returns the truth matrix and the tokens left.
\<close>

function highlightRow_scan ::
  "charRow \<Rightarrow> nat \<Rightarrow> truthMatrix \<Rightarrow> string list \<Rightarrow> bool \<Rightarrow> int
     \<Rightarrow> error + (truthMatrix \<times> string list)" where
  "highlightRow_scan charRow row tm tokens forceSpace i =
     (if i < int (length charRow) then
        (if length tokens = 0 then Inr (tm, tokens)
         else
           (let token = hd tokens in
            if startswith (join (py_slice_from charRow i)) token then
              (case highlightRow_mark charRow row tm token i of
                 Inl e \<Rightarrow> Inl e
               | Inr (tm', i') \<Rightarrow>
                   (let i'' = (if \<not> forceSpace then i' - 1 else i')
                    in highlightRow_scan charRow row tm' (py_slice_from tokens 1) forceSpace
                         (i'' + 1)))
            else highlightRow_scan charRow row tm tokens forceSpace (i + 1)))
      else Inr (tm, tokens))"
  by pat_completeness auto
termination
proof (relation "measure (\<lambda>(charRow, row, tm, tokens, forceSpace, i).
                   nat (int (length charRow) - i) + length tokens)", goal_cases)
  case 1
  show ?case by simp
next
  case (2 charRow row tm tokens forceSpace i token tm_i tm' i' i'')
  from 2 have "i \<le> i'"
    using highlightRow_mark_mono[of charRow row tm "hd tokens" i tm' i'] by simp
  with 2 show ?case
    by (cases tokens) (auto simp: py_slice_from_def)
next
  case (3 charRow row tm tokens forceSpace i token)
  then show ?case by simp
qed

text \<open>
  \<open>highlightRow\<close>: scan from cell 0 and return the number of tokens consumed,
  \<open>len(tokensCopy) - len(tokens)\<close>.
\<close>

definition highlightRow ::
  "charRow \<Rightarrow> nat \<Rightarrow> truthMatrix \<Rightarrow> string list \<Rightarrow> bool \<Rightarrow> error + (truthMatrix \<times> int)" where
  "highlightRow charRow row tm tokens forceSpace =
     (case highlightRow_scan charRow row tm tokens forceSpace 0 of
        Inl e \<Rightarrow> Inl e
      | Inr (tm', tokens') \<Rightarrow> Inr (tm', int (length tokens) - int (length tokens')))"

section \<open>Data of the collaborating modules\<close>

text \<open>
  Modelled from the spec: the class \<open>Time\<close> (the spec's TickClock) is imported from the
  package and its code is not among the sources. It is a value holding the seconds since
  midnight; \<open>fromSeconds\<close> normalises into \<open>0 .. 86399\<close>, so that
  \<open>fromSeconds(s).toSeconds() == s mod 86400\<close>.
\<close>

datatype Time = Time int

definition fromSeconds :: "int \<Rightarrow> Time" where
  "fromSeconds s = Time (s mod 86400)"

fun toSeconds :: "Time \<Rightarrow> int" where
  "toSeconds (Time v) = v"

text \<open>
  Modelled from the spec: \<open>createTruthMatrix(height, width)\<close> is imported from the
  package; it gives a grid of \<open>height\<close> rows and \<open>width\<close> columns, every cell false.
\<close>

definition createTruthMatrix :: "nat \<Rightarrow> nat \<Rightarrow> truthMatrix" where
  "createTruthMatrix h w = replicate h (replicate w False)"

text \<open>
  The layout object, as far as the state machine reads it: its dimensions, its character
  matrix and the keys of its \<open>times\<close> dictionary in iteration order.
\<close>

record Layout =
  height :: nat
  width :: nat
  matrix :: charMatrix
  times_keys :: "Time list"

text \<open>
  \<open>highlight\<close>: the loop over \<open>range(self.layout.height)\<close>, on the list of row numbers
  still to visit.
  \<^verbatim>\<open>
  for row in range(self.layout.height):
      if not len(tokens):
          break
      consumed = self.highlightRow(charMatrix[row], row, truthMatrix, tokens, forceSpace)
      tokens = tokens[consumed:]
  return len(tokens) == 0
  \<close>
\<close>

fun highlight_rows ::
  "nat list \<Rightarrow> charMatrix \<Rightarrow> truthMatrix \<Rightarrow> string list \<Rightarrow> bool
     \<Rightarrow> error + (truthMatrix \<times> string list)" where
  "highlight_rows [] charMatrix tm tokens forceSpace = Inr (tm, tokens)"
| "highlight_rows (row # rows) charMatrix tm tokens forceSpace =
     (if length tokens = 0 then Inr (tm, tokens)
      else
        (case py_getitem charMatrix (int row) of
           Inl e \<Rightarrow> Inl e
         | Inr charRow \<Rightarrow>
             (case highlightRow charRow row tm tokens forceSpace of
                Inl e \<Rightarrow> Inl e
              | Inr (tm', consumed) \<Rightarrow>
                  highlight_rows rows charMatrix tm' (py_slice_from tokens consumed)
                    forceSpace)))"

definition highlight ::
  "Layout \<Rightarrow> charMatrix \<Rightarrow> truthMatrix \<Rightarrow> string list \<Rightarrow> bool
     \<Rightarrow> error + (truthMatrix \<times> bool)" where
  "highlight layout charMatrix tm tokens forceSpace =
     (case highlight_rows [0..<height layout] charMatrix tm tokens forceSpace of
        Inl e \<Rightarrow> Inl e
      | Inr (tm', tokens') \<Rightarrow> Inr (tm', length tokens' = 0))"

section \<open>The state machine\<close>

text \<open>
  The fields of a \<open>StateMachine\<close> object: \<open>_stop\<close> (here \<open>stop_flag\<close>), \<open>delay\<close>,
  \<open>state\<close> and \<open>windowSighted\<close>. The condition variable only serves the waiting and
  waking of the thread and carries no data.
\<close>

record StateMachine =
  stop_flag :: bool
  delay :: int
  state :: Time
  windowSighted :: bool

text \<open>What \<open>datetime.datetime.now()\<close> returns, as far as it is read.\<close>

record datetime =
  hour :: int
  minute :: int
  second :: int
  microsecond :: int

text \<open>
  \<open>StateMachine.__init__\<close>: the state is the current time rounded down to a multiple of
  the delay; Python 2's \<open>/\<close> on integers is floor division and raises on a zero divisor.
\<close>

definition StateMachine_init :: "int \<Rightarrow> datetime \<Rightarrow> error + StateMachine" where
  "StateMachine_init d now =
     (let seconds = hour now * 60 * 60 + minute now * 60 + second now
      in if d = 0 then Inl ZeroDivisionError
         else Inr \<lparr>stop_flag = False, delay = d,
                   state = fromSeconds (seconds div d * d), windowSighted = False\<rparr>)"

text \<open>
  \<open>shouldStop\<close>, given what the visibility query answers: the returned flag and the
  object after the call.
\<close>

definition shouldStop ::
  "bool \<Rightarrow> 'a StateMachine_scheme \<Rightarrow> bool \<times> 'a StateMachine_scheme" where
  "shouldStop visible self =
     (if windowSighted self \<and> \<not> visible then (True, self)
      else if visible then (stop_flag self, self\<lparr>windowSighted := True\<rparr>)
      else (stop_flag self, self))"

definition stop :: "'a StateMachine_scheme \<Rightarrow> 'a StateMachine_scheme" where
  "stop self = self\<lparr>stop_flag := True\<rparr>"

text \<open>
  The body of the loop of \<open>run\<close> after the call of \<open>step\<close>: the next state, and the time to
  sleep. The wall clock's seconds of the day carry the microseconds as a fraction; the
  model computes with them exactly.
  \<^verbatim>\<open>
  next = (self.state.toSeconds() + self.delay) % (24 * 60 * 60)
  self.state = Time.fromSeconds(next)
  now = datetime.datetime.now()
  seconds = now.hour * 60 * 60 + now.minute * 60 + now.second + now.microsecond / 1000000.0
  delay = self.state.toSeconds() - seconds
  if delay < 0:
      delay = delay + 24 * 60 * 60
  \<close>
\<close>

definition next_seconds :: "'a StateMachine_scheme \<Rightarrow> int" where
  "next_seconds self = (toSeconds (state self) + delay self) mod (24 * 60 * 60)"

definition wall_seconds :: "datetime \<Rightarrow> real" where
  "wall_seconds now =
     of_int (hour now * 60 * 60 + minute now * 60 + second now)
       + of_int (microsecond now) / 1000000"

definition run_tick ::
  "'a StateMachine_scheme \<Rightarrow> datetime \<Rightarrow> 'a StateMachine_scheme \<times> real" where
  "run_tick self now =
     (let next = next_seconds self;
          self' = self\<lparr>state := fromSeconds next\<rparr>;
          seconds = wall_seconds now;
          d = of_int (toSeconds (state self')) - seconds;
          d' = (if d < 0 then d + 24 * 60 * 60 else d)
      in (self', d'))"

section \<open>The word clock thread\<close>

text \<open>
  A \<open>QlockThread\<close> adds the window, the layout and the solver. The window is the
  rendering surface: the model keeps the list of the matrices handed to \<open>drawMatrix\<close>, in
  the order of the calls. The solver is the function \<open>resolveTime\<close> it offers.
\<close>

record QlockThread = StateMachine +
  window :: "truthMatrix list"
  layout :: Layout
  solver :: "Time \<Rightarrow> string list"

definition drawMatrix :: "QlockThread \<Rightarrow> truthMatrix \<Rightarrow> QlockThread" where
  "drawMatrix self tm = self\<lparr>window := window self @ [tm]\<rparr>"

text \<open>\<open>reduce(f, xs)\<close> with no initial value raises \<open>TypeError\<close> on an empty sequence.\<close>

definition py_reduce :: "('a \<Rightarrow> 'a \<Rightarrow> 'a) \<Rightarrow> 'a list \<Rightarrow> error + 'a" where
  "py_reduce f xs = (case xs of [] \<Rightarrow> Inl TypeError | x # rest \<Rightarrow> Inr (foldl f x rest))"

text \<open>
  Modelled from the spec: \<open>gcd\<close> is imported from the package and its code is not among
  the sources; it is the greatest common divisor of two integers.
\<close>

definition gcd_py :: "int \<Rightarrow> int \<Rightarrow> int" where
  "gcd_py a b = gcd a b"

definition calcDelay :: "Layout \<Rightarrow> error + int" where
  "calcDelay lay = py_reduce gcd_py (map toSeconds (times_keys lay))"

text \<open>
  The loops of \<open>QlockThread.__init__\<close> that lower the copied matrix cell by cell;
  \<open>lower\<close> stands for \<open>str.lower\<close>.
\<close>

fun lower_cols :: "(string \<Rightarrow> string) \<Rightarrow> nat list \<Rightarrow> nat \<Rightarrow> charMatrix \<Rightarrow> error + charMatrix" where
  "lower_cols lower [] row m = Inr m"
| "lower_cols lower (col # cols) row m =
     (case py_getitem m (int row) of
        Inl e \<Rightarrow> Inl e
      | Inr r \<Rightarrow>
          (case py_getitem r (int col) of
             Inl e \<Rightarrow> Inl e
           | Inr cell \<Rightarrow>
               (case py_setitem r (int col) (lower cell) of
                  Inl e \<Rightarrow> Inl e
                | Inr r' \<Rightarrow>
                    (case py_setitem m (int row) r' of
                       Inl e \<Rightarrow> Inl e
                     | Inr m' \<Rightarrow> lower_cols lower cols row m'))))"

fun lower_rows :: "(string \<Rightarrow> string) \<Rightarrow> nat list \<Rightarrow> nat \<Rightarrow> charMatrix \<Rightarrow> error + charMatrix" where
  "lower_rows lower [] w m = Inr m"
| "lower_rows lower (row # rows) w m =
     (case lower_cols lower [0..<w] row m of
        Inl e \<Rightarrow> Inl e
      | Inr m' \<Rightarrow> lower_rows lower rows w m')"

text \<open>
  \<open>QlockThread.__init__\<close>: the delay is computed first, then the state machine is set
  up, the layout copied and lowered, and the solver built from the layout and the delay
  (\<open>mkSolver\<close> stands for \<open>solver.Solver\<close>).
\<close>

definition QlockThread_init ::
  "(string \<Rightarrow> string) \<Rightarrow> (Layout \<Rightarrow> int \<Rightarrow> Time \<Rightarrow> string list) \<Rightarrow> truthMatrix list \<Rightarrow> Layout
     \<Rightarrow> datetime \<Rightarrow> error + QlockThread" where
  "QlockThread_init lower mkSolver win lay now =
     (case calcDelay lay of
        Inl e \<Rightarrow> Inl e
      | Inr d \<Rightarrow>
          (case StateMachine_init d now of
             Inl e \<Rightarrow> Inl e
           | Inr sm \<Rightarrow>
               (case lower_rows lower [0..<height lay] (width lay) (matrix lay) of
                  Inl e \<Rightarrow> Inl e
                | Inr m \<Rightarrow>
                    Inr (StateMachine.extend sm
                           (QlockThread.fields win (lay\<lparr>matrix := m\<rparr>) (mkSolver lay d))))))"

text \<open>
  \<open>step\<close>: one attempt with \<open>forceSpace\<close> (the default, true), a second one on a fresh truth
  matrix without it when the first does not succeed, and the drawing of the matrix of the
  last attempt made.
\<close>

definition step :: "QlockThread \<Rightarrow> Time \<Rightarrow> error + QlockThread" where
  "step self time =
     (let solution = solver self time;
          truthMatrix = createTruthMatrix (height (layout self)) (width (layout self))
      in case highlight (layout self) (matrix (layout self)) truthMatrix solution True of
           Inl e \<Rightarrow> Inl e
         | Inr (truthMatrix1, success) \<Rightarrow>
             if \<not> success then
               (let truthMatrix2 = createTruthMatrix (height (layout self)) (width (layout self))
                in case highlight (layout self) (matrix (layout self)) truthMatrix2 solution False of
                     Inl e \<Rightarrow> Inl e
                   | Inr (truthMatrix3, success') \<Rightarrow> Inr (drawMatrix self truthMatrix3))
             else Inr (drawMatrix self truthMatrix1))"

definition cleanup :: "QlockThread \<Rightarrow> QlockThread" where
  "cleanup self =
     drawMatrix self (createTruthMatrix (height (layout self)) (width (layout self)))"

text \<open>
  What can happen to a running \<open>QlockThread\<close> object: a check of the stop condition, a
  call of \<open>stop\<close>, a step that returns, the advance of the state, and the cleanup.
\<close>

inductive operation :: "QlockThread \<Rightarrow> QlockThread \<Rightarrow> bool" where
  op_shouldStop: "operation self (snd (shouldStop visible self))"
| op_stop: "operation self (stop self)"
| op_step: "step self time = Inr self' \<Longrightarrow> operation self self'"
| op_tick: "operation self (fst (run_tick self now))"
| op_cleanup: "operation self (cleanup self)"

section \<open>The token lists as objects\<close>

text \<open>
  A Python list is an object that the caller and the callee share, so whether a call
  changes the caller's token list cannot be read off functions on values. This second
  model of \<open>highlightRow\<close>, \<open>highlight\<close> and \<open>step\<close> keeps the token lists in a store: a
  list object is an address, the store holds the content of every list object made so far,
  and a variable of the code holds an address. \<open>len(tokens)\<close> and \<open>tokens[0]\<close> read the
  store; a slice \<open>tokens[k:]\<close> makes a new list object and the assignment rebinds the
  variable to it. The truth matrix is passed on as before.
\<close>

type_synonym ref = nat
type_synonym heap = "string list list"


text \<open>A new list object, and the slice \<open>xs[i:]\<close> of the list object at \<open>r\<close>.\<close>

definition new_list :: "heap \<Rightarrow> string list \<Rightarrow> heap \<times> ref" where
  "new_list h v = (h @ [v], length h)"

definition slice_from_h :: "heap \<Rightarrow> ref \<Rightarrow> int \<Rightarrow> heap \<times> ref" where
  "slice_from_h h r i = new_list h (py_slice_from (h ! r) i)"

text \<open>The outer loop of \<open>highlightRow\<close> once more, with \<open>tokens\<close> an address.\<close>

function highlightRow_scan_h ::
  "charRow \<Rightarrow> nat \<Rightarrow> truthMatrix \<Rightarrow> heap \<Rightarrow> ref \<Rightarrow> bool \<Rightarrow> int
     \<Rightarrow> heap \<times> (error + (truthMatrix \<times> ref))" where
  "highlightRow_scan_h charRow row tm h tokens forceSpace i =
     (if i < int (length charRow) then
        (if length (h ! tokens) = 0 then (h, Inr (tm, tokens))
         else
           (let token = hd (h ! tokens) in
            if startswith (join (py_slice_from charRow i)) token then
              (case highlightRow_mark charRow row tm token i of
                 Inl e \<Rightarrow> (h, Inl e)
               | Inr (tm', i') \<Rightarrow>
                   (let i'' = (if \<not> forceSpace then i' - 1 else i')
                    in case slice_from_h h tokens 1 of
                         (h', tokens') \<Rightarrow>
                           highlightRow_scan_h charRow row tm' h' tokens' forceSpace (i'' + 1)))
            else highlightRow_scan_h charRow row tm h tokens forceSpace (i + 1)))
      else (h, Inr (tm, tokens)))"
  by pat_completeness auto
termination
proof (relation "measure (\<lambda>(charRow, row, tm, h, tokens, forceSpace, i).
                   nat (int (length charRow) - i) + length (h ! tokens))", goal_cases)
  case 1
  show ?case by simp
next
  case (2 charRow row tm h tokens forceSpace i token tm_i tm' i' i'' h' tokens')
  from 2 have "i \<le> i'"
    using highlightRow_mark_mono[of charRow row tm "hd (h ! tokens)" i tm' i'] by simp
  with 2 show ?case
    by (cases "h ! tokens") (auto simp: py_slice_from_def slice_from_h_def new_list_def)
next
  case 3
  then show ?case by simp
qed

declare highlightRow_scan_h.simps [simp del]

text \<open>
  \<open>highlightRow\<close>: \<open>tokensCopy\<close> is bound to the same object as \<open>tokens\<close>, and both lengths
  are read when the loop is over.
\<close>

definition highlightRow_h ::
  "charRow \<Rightarrow> nat \<Rightarrow> truthMatrix \<Rightarrow> heap \<Rightarrow> ref \<Rightarrow> bool \<Rightarrow> heap \<times> (error + (truthMatrix \<times> int))" where
  "highlightRow_h charRow row tm h tokens forceSpace =
     (let tokensCopy = tokens
      in case highlightRow_scan_h charRow row tm h tokens forceSpace 0 of
           (h', Inl e) \<Rightarrow> (h', Inl e)
         | (h', Inr (tm', tokens')) \<Rightarrow>
             (h', Inr (tm', int (length (h' ! tokensCopy)) - int (length (h' ! tokens')))))"

text \<open>\<open>highlight\<close>, with \<open>tokens = tokens[consumed:]\<close> a new object for each row.\<close>

fun highlight_rows_h ::
  "nat list \<Rightarrow> charMatrix \<Rightarrow> truthMatrix \<Rightarrow> heap \<Rightarrow> ref \<Rightarrow> bool
     \<Rightarrow> heap \<times> (error + (truthMatrix \<times> ref))" where
  "highlight_rows_h [] charMatrix tm h tokens forceSpace = (h, Inr (tm, tokens))"
| "highlight_rows_h (row # rows) charMatrix tm h tokens forceSpace =
     (if length (h ! tokens) = 0 then (h, Inr (tm, tokens))
      else
        (case py_getitem charMatrix (int row) of
           Inl e \<Rightarrow> (h, Inl e)
         | Inr charRow \<Rightarrow>
             (case highlightRow_h charRow row tm h tokens forceSpace of
                (h1, Inl e) \<Rightarrow> (h1, Inl e)
              | (h1, Inr (tm', consumed)) \<Rightarrow>
                  (case slice_from_h h1 tokens consumed of
                     (h2, tokens') \<Rightarrow>
                       highlight_rows_h rows charMatrix tm' h2 tokens' forceSpace))))"

definition highlight_h ::
  "Layout \<Rightarrow> charMatrix \<Rightarrow> truthMatrix \<Rightarrow> heap \<Rightarrow> ref \<Rightarrow> bool
     \<Rightarrow> heap \<times> (error + (truthMatrix \<times> bool))" where
  "highlight_h lay charMatrix tm h tokens forceSpace =
     (case highlight_rows_h [0..<height lay] charMatrix tm h tokens forceSpace of
        (h', Inl e) \<Rightarrow> (h', Inl e)
      | (h', Inr (tm', tokens')) \<Rightarrow> (h', Inr (tm', length (h' ! tokens') = 0)))"

text \<open>
  \<open>step\<close>: the list the solver returns is one object, \<open>solution\<close>, handed to the first
  call of \<open>highlight\<close> and, when that does not succeed, to the second.
\<close>

definition step_h :: "QlockThread \<Rightarrow> Time \<Rightarrow> heap \<Rightarrow> heap \<times> (error + QlockThread)" where
  "step_h self time h =
     (case new_list h (solver self time) of
        (h0, solution) \<Rightarrow>
          (let truthMatrix = createTruthMatrix (height (layout self)) (width (layout self))
           in case highlight_h (layout self) (matrix (layout self)) truthMatrix h0 solution True of
                (h1, Inl e) \<Rightarrow> (h1, Inl e)
              | (h1, Inr (truthMatrix1, success)) \<Rightarrow>
                  if \<not> success then
                    (let truthMatrix2 =
                           createTruthMatrix (height (layout self)) (width (layout self))
                     in case highlight_h (layout self) (matrix (layout self)) truthMatrix2 h1
                               solution False of
                          (h2, Inl e) \<Rightarrow> (h2, Inl e)
                        | (h2, Inr (truthMatrix3, success')) \<Rightarrow>
                            (h2, Inr (drawMatrix self truthMatrix3)))
                  else (h1, Inr (drawMatrix self truthMatrix1))))"


section \<open>Notions for stating the properties\<close>

text \<open>The invariant of a \<open>Time\<close> value, and the ranges of the fields of a wall-clock reading.\<close>

definition valid_time :: "Time \<Rightarrow> bool" where
  "valid_time t = (0 \<le> toSeconds t \<and> toSeconds t < 86400)"

definition valid_datetime :: "datetime \<Rightarrow> bool" where
  "valid_datetime now =
     (0 \<le> hour now \<and> hour now < 24 \<and> 0 \<le> minute now \<and> minute now < 60 \<and>
      0 \<le> second now \<and> second now < 60 \<and> 0 \<le> microsecond now \<and> microsecond now < 1000000)"

text \<open>
  The text of the cells \<open>s .. e-1\<close> of a row, the cells of a truth matrix that are set, and
  two truth matrices of the same dimensions.
\<close>

definition cells_text :: "charRow \<Rightarrow> nat \<Rightarrow> nat \<Rightarrow> string" where
  "cells_text charRow s e = concat (take (e - s) (drop s charRow))"

definition marked :: "truthMatrix \<Rightarrow> nat \<Rightarrow> nat \<Rightarrow> bool" where
  "marked tm r c = (r < length tm \<and> c < length (tm ! r) \<and> tm ! r ! c)"

definition same_shape :: "truthMatrix \<Rightarrow> truthMatrix \<Rightarrow> bool" where
  "same_shape a b = (map length a = map length b)"

text \<open>
  The cells \<open>s .. e-1\<close> of a row cover a token when the token is a prefix of their text and
  no shorter run of cells from \<open>s\<close> holds the whole token.
\<close>

definition span_covers :: "charRow \<Rightarrow> nat \<Rightarrow> nat \<Rightarrow> string \<Rightarrow> bool" where
  "span_covers charRow s e token =
     (s \<le> e \<and> e \<le> length charRow \<and> prefix token (cells_text charRow s e) \<and>
      (s < e \<longrightarrow> length (cells_text charRow s (e - 1)) < length token))"

text \<open>
  The spans matched in one row from scan position \<open>n\<close> on, in order: each starts at or after
  the position the scan had reached, which with \<open>forceSpace\<close> is one cell past the end of the
  span before.
\<close>

fun spans_from :: "bool \<Rightarrow> nat \<Rightarrow> (nat \<times> nat) list \<Rightarrow> bool" where
  "spans_from fs n [] = True"
| "spans_from fs n ((s, e) # rest) =
     (n \<le> s \<and> s \<le> e \<and> spans_from fs (if fs then e + 1 else e) rest)"

text \<open>
  What a scan of a row does, told by the list of the spans it matched: the tokens consumed
  are the first ones, one per span, and the cells set are those of the spans.
\<close>

definition row_spans ::
  "charRow \<Rightarrow> nat \<Rightarrow> bool \<Rightarrow> nat \<Rightarrow> truthMatrix \<Rightarrow> string list \<Rightarrow> truthMatrix \<Rightarrow> string list
     \<Rightarrow> (nat \<times> nat) list \<Rightarrow> bool" where
  "row_spans charRow row fs n tm tokens tm' tokens' spans =
     (length spans \<le> length tokens \<and> tokens' = drop (length spans) tokens \<and>
      list_all2 (\<lambda>token (s, e). span_covers charRow s e token)
        (take (length spans) tokens) spans \<and>
      spans_from fs n spans \<and> same_shape tm tm' \<and>
      (\<forall>r c. marked tm' r c =
         (marked tm r c \<or> (r = row \<and> (\<exists>(s, e) \<in> set spans. s \<le> c \<and> c < e)))))"

text \<open>
  The same for the whole grid, a span being a row and a range of cells in it: the spans are
  in row-major order.
\<close>

definition span_in :: "charMatrix \<Rightarrow> string \<Rightarrow> nat \<times> nat \<times> nat \<Rightarrow> bool" where
  "span_in cm token sp = (case sp of (r, s, e) \<Rightarrow> r < length cm \<and> span_covers (cm ! r) s e token)"

definition span_before :: "bool \<Rightarrow> nat \<times> nat \<times> nat \<Rightarrow> nat \<times> nat \<times> nat \<Rightarrow> bool" where
  "span_before fs a b =
     (case a of (r, s, e) \<Rightarrow> case b of (r', s', e') \<Rightarrow>
        r < r' \<or> (r = r' \<and> (if fs then e + 1 else e) \<le> s'))"

definition covered :: "(nat \<times> nat \<times> nat) list \<Rightarrow> nat \<Rightarrow> nat \<Rightarrow> bool" where
  "covered spans r c = (\<exists>(r', s, e) \<in> set spans. r = r' \<and> s \<le> c \<and> c < e)"

definition grid_spans ::
  "nat list \<Rightarrow> charMatrix \<Rightarrow> bool \<Rightarrow> truthMatrix \<Rightarrow> string list \<Rightarrow> truthMatrix \<Rightarrow> string list
     \<Rightarrow> (nat \<times> nat \<times> nat) list \<Rightarrow> bool" where
  "grid_spans rows cm fs tm tokens tm' tokens' spans =
     (length spans \<le> length tokens \<and> tokens' = drop (length spans) tokens \<and>
      list_all2 (span_in cm) (take (length spans) tokens) spans \<and>
      sorted_wrt (span_before fs) spans \<and>
      (\<forall>(r, s, e) \<in> set spans. r \<in> set rows) \<and>
      same_shape tm tm' \<and>
      (\<forall>r c. marked tm' r c = (marked tm r c \<or> covered spans r c)))"

text \<open>
  A character matrix whose cells all hold exactly one character, and a span whose text is
  exactly the token.
\<close>

definition single_chars :: "charMatrix \<Rightarrow> bool" where
  "single_chars cm = (\<forall>charRow \<in> set cm. \<forall>cell \<in> set charRow. length cell = 1)"

definition span_text_is :: "charMatrix \<Rightarrow> string \<Rightarrow> nat \<times> nat \<times> nat \<Rightarrow> bool" where
  "span_text_is cm token sp = (case sp of (r, s, e) \<Rightarrow> cells_text (cm ! r) s e = token)"

text \<open>
  A layout whose matrix has the dimensions the layout states: \<open>height\<close> rows of \<open>width\<close>
  cells each.
\<close>

definition wf_layout :: "Layout \<Rightarrow> bool" where
  "wf_layout lay =
     (length (matrix lay) = height lay \<and> (\<forall>charRow \<in> set (matrix lay). length charRow = width lay))"

text \<open>
  A store extends another when every list object of the first is in the second with the
  same content. A run on the store tracks a run on values when it extends the store,
  fails where the other fails, and returns the address of the list the other returns.
\<close>

definition heap_extends :: "heap \<Rightarrow> heap \<Rightarrow> bool" where
  "heap_extends h h' = (length h \<le> length h' \<and> (\<forall>r < length h. h' ! r = h ! r))"

definition tracks ::
  "heap \<Rightarrow> heap \<times> (error + ('a \<times> ref)) \<Rightarrow> error + ('a \<times> string list) \<Rightarrow> bool" where
  "tracks h res pure =
     (case res of (h', r) \<Rightarrow>
        heap_extends h h' \<and>
        (case r of
           Inl e \<Rightarrow> pure = Inl e
         | Inr (x, t') \<Rightarrow> t' < length h' \<and> pure = Inr (x, h' ! t')))"

section \<open>The loops on natural positions\<close>

declare highlightRow_mark.simps [simp del]
declare highlightRow_scan.simps [simp del]

lemma py_getitem_nat:
  "py_getitem xs (int n) = (if n < length xs then Inr (xs ! n) else Inl IndexError)"
  by (simp add: py_getitem_def py_index_def)

lemma py_setitem_nat:
  "py_setitem xs (int n) v = (if n < length xs then Inr (xs[n := v]) else Inl IndexError)"
  by (simp add: py_setitem_def py_index_def)

lemma py_slice_from_nat: "py_slice_from xs (int n) = drop n xs"
  by (simp add: py_slice_from_def)

lemma set_truth_nat:
  "set_truth tm (int row) (int n) =
     (if row < length tm \<and> n < length (tm ! row)
      then Inr (tm[row := (tm ! row)[n := True]]) else Inl IndexError)"
  by (simp add: set_truth_def py_getitem_nat py_setitem_nat)

lemma same_shape_refl: "same_shape tm tm"
  by (simp add: same_shape_def)

lemma same_shape_trans: "same_shape a b \<Longrightarrow> same_shape b c \<Longrightarrow> same_shape a c"
  by (simp add: same_shape_def)

lemma same_shape_update:
  "row < length tm \<Longrightarrow> same_shape tm (tm[row := (tm ! row)[n := v]])"
  by (auto simp: same_shape_def list_eq_iff_nth_eq nth_list_update)

lemma marked_update:
  "row < length tm \<Longrightarrow> n < length (tm ! row) \<Longrightarrow>
   marked (tm[row := (tm ! row)[n := True]]) r c = (marked tm r c \<or> (r = row \<and> c = n))"
  by (auto simp: marked_def nth_list_update)

lemma cells_text_empty: "cells_text charRow s s = []"
  by (simp add: cells_text_def)

lemma cells_text_step:
  "n < e \<Longrightarrow> n < length charRow \<Longrightarrow>
   cells_text charRow n e = charRow ! n @ cells_text charRow (Suc n) e"
proof -
  assume a: "n < e" "n < length charRow"
  then obtain k where k: "e - n = Suc k" by (cases "e - n") auto
  then have k': "e - Suc n = k" by simp
  from a have d: "drop n charRow = charRow ! n # drop (Suc n) charRow"
    by (simp add: Cons_nth_drop_Suc)
  show ?thesis by (simp add: cells_text_def k k' d)
qed

lemma concat_drop_step:
  "n < length charRow \<Longrightarrow> concat (drop n charRow) = charRow ! n @ concat (drop (Suc n) charRow)"
  by (simp flip: Cons_nth_drop_Suc)

lemma prefix_drop_cell:
  "prefix token (cell @ rest) \<Longrightarrow> prefix (drop (length cell) token) rest"
  by (auto simp: prefix_append dest: prefix_length_le)


lemma mark_nat:
  "highlightRow_mark charRow row tm token (int n) =
     (if token = [] then Inr (tm, int n)
      else if row < length tm \<and> n < length (tm ! row) then
        (if n < length charRow then
           highlightRow_mark charRow row (tm[row := (tm ! row)[n := True]])
             (drop (length (charRow ! n)) token) (int (Suc n))
         else Inl IndexError)
      else Inl IndexError)"
  by (subst highlightRow_mark.simps)
     (simp add: set_truth_nat py_getitem_nat py_slice_from_nat add.commute)

lemma span_covers_empty: "n \<le> length charRow \<Longrightarrow> span_covers charRow n n []"
  by (simp add: span_covers_def)

lemma span_covers_step:
  assumes n: "n < length charRow"
    and tok: "token \<noteq> []"
    and pre: "prefix token (concat (drop n charRow))"
    and rec: "span_covers charRow (Suc n) e (drop (length (charRow ! n)) token)"
  shows "span_covers charRow n e token"
proof -
  let ?cell = "charRow ! n"
  let ?tok' = "drop (length ?cell) token"
  from rec have e: "Suc n \<le> e" "e \<le> length charRow"
    and p': "prefix ?tok' (cells_text charRow (Suc n) e)"
    and m': "Suc n < e \<longrightarrow> length (cells_text charRow (Suc n) (e - 1)) < length ?tok'"
    by (auto simp: span_covers_def)
  have ct: "cells_text charRow n e = ?cell @ cells_text charRow (Suc n) e"
    using e n by (simp add: cells_text_step)
  from pre n have pc: "prefix token (?cell @ concat (drop (Suc n) charRow))"
    by (simp add: concat_drop_step)
  have pt: "prefix token (?cell @ cells_text charRow (Suc n) e)"
  proof -
    from pc consider (short) "prefix token ?cell"
      | (long) us where "token = ?cell @ us" "prefix us (concat (drop (Suc n) charRow))"
      by (auto simp: prefix_append dest: prefix_length_le)
    then show ?thesis
    proof cases
      case short
      then show ?thesis by simp
    next
      case long
      then have "?tok' = us" by (metis append_eq_conv_conj)
      with p' long(1) show ?thesis by (metis same_prefix_prefix)
    qed
  qed
  have mn: "n < e \<longrightarrow> length (cells_text charRow n (e - 1)) < length token"
  proof (cases "Suc n < e")
    case False
    with e have "e - 1 = n" by simp
    with tok show ?thesis by (simp add: cells_text_empty)
  next
    case True
    with m' have l: "length (cells_text charRow (Suc n) (e - 1)) < length ?tok'" by simp
    then have "?tok' \<noteq> []" by auto
    then have lt: "length ?cell < length token" by simp
    from True n have "cells_text charRow n (e - 1) = ?cell @ cells_text charRow (Suc n) (e - 1)"
      by (simp add: cells_text_step)
    with l lt show ?thesis by (simp add: less_diff_conv add.commute)
  qed
  from e pt mn ct show ?thesis by (simp add: span_covers_def)
qed

lemma mark_spec:
  "highlightRow_mark charRow row tm token i = Inr (tm', i') \<Longrightarrow> 0 \<le> i \<Longrightarrow>
   nat i \<le> length charRow \<Longrightarrow>
   prefix token (concat (drop (nat i) charRow)) \<Longrightarrow>
   0 \<le> i' \<and> span_covers charRow (nat i) (nat i') token \<and> same_shape tm tm' \<and>
   (\<forall>r c. marked tm' r c = (marked tm r c \<or> (r = row \<and> nat i \<le> c \<and> c < nat i')))"
proof (induction charRow row tm token i rule: highlightRow_mark.induct)
  case (1 charRow row tm token i)
  from \<open>0 \<le> i\<close> obtain n where i: "i = int n" using nonneg_int_cases by blast
  with "1.prems" have nle: "n \<le> length charRow"
    and pre: "prefix token (concat (drop n charRow))" by simp_all
  show ?case
  proof (cases "token = []")
    case True
    with "1.prems" i have "highlightRow_mark charRow row tm [] (int n) = Inr (tm', i')"
      by simp
    then have "tm' = tm" "i' = int n"
      by (simp_all add: mark_nat[of charRow row tm "[]" n])
    then show ?thesis using i nle True
      by (auto simp: span_covers_empty same_shape_refl)
  next
    case False
    with pre have n: "n < length charRow" by (cases "n < length charRow") auto
    let ?tm1 = "tm[row := (tm ! row)[n := True]]"
    let ?tok' = "drop (length (charRow ! n)) token"
    from "1.prems"(1) False i n have ok: "row < length tm" "n < length (tm ! row)"
      and rec: "highlightRow_mark charRow row ?tm1 ?tok' (int (Suc n)) = Inr (tm', i')"
      by (auto simp: mark_nat[of charRow row tm token n] split: if_splits)
    have s: "set_truth tm (int row) i = Inr ?tm1" using ok i by (simp add: set_truth_nat)
    have g: "py_getitem charRow i = Inr (charRow ! n)" using n i by (simp add: py_getitem_nat)
    have rec': "highlightRow_mark charRow row ?tm1
                 (py_slice_from token (int (length (charRow ! n)))) (i + 1) = Inr (tm', i')"
      using rec i by (simp add: py_slice_from_nat add.commute)
    have pre': "prefix (py_slice_from token (int (length (charRow ! n))))
                  (concat (drop (nat (i + 1)) charRow))"
      using pre n i by (simp add: py_slice_from_nat concat_drop_step prefix_drop_cell nat_add_distrib)
    from False have tl: "length token \<noteq> 0" by simp
    have ih: "0 \<le> i' \<and> span_covers charRow (Suc n) (nat i') ?tok' \<and> same_shape ?tm1 tm' \<and>
      (\<forall>r c. marked tm' r c = (marked ?tm1 r c \<or> (r = row \<and> Suc n \<le> c \<and> c < nat i')))"
      using "1.IH"[OF tl s g rec' _ _ pre'] i n
      by (simp add: py_slice_from_nat nat_add_distrib)
    then have sn: "Suc n \<le> nat i'" by (simp add: span_covers_def)
    have cov: "span_covers charRow n (nat i') token"
      using span_covers_step[OF n False pre] ih by simp
    have sh: "same_shape tm tm'"
      using same_shape_trans[OF same_shape_update[OF ok(1)]] ih by blast
    have mk: "\<forall>r c. marked tm' r c = (marked tm r c \<or> (r = row \<and> n \<le> c \<and> c < nat i'))"
      using ih sn by (auto simp: marked_update[OF ok])
    from ih cov sh mk i show ?thesis by simp
  qed
qed


lemma scan_nat:
  "highlightRow_scan charRow row tm tokens fs (int n) =
     (if n < length charRow then
        (case tokens of
           [] \<Rightarrow> Inr (tm, [])
         | token # rest \<Rightarrow>
             if prefix token (concat (drop n charRow)) then
               (case highlightRow_mark charRow row tm token (int n) of
                  Inl e \<Rightarrow> Inl e
                | Inr (tm', i') \<Rightarrow>
                    highlightRow_scan charRow row tm' rest fs (if fs then i' + 1 else i'))
             else highlightRow_scan charRow row tm tokens fs (int (Suc n)))
      else Inr (tm, tokens))"
  by (subst highlightRow_scan.simps)
     (auto simp: Let_def startswith_def join_def py_slice_from_nat py_slice_from_def add.commute
        split: list.splits sum.splits prod.splits)

lemma spans_from_mono: "spans_from fs m spans \<Longrightarrow> n \<le> m \<Longrightarrow> spans_from fs n spans"
  by (cases spans) auto

lemma row_spans_nil: "row_spans charRow row fs n tm tokens tm tokens []"
  by (simp add: row_spans_def same_shape_refl)

lemma row_spans_later:
  "row_spans charRow row fs (Suc n) tm tokens tm' tokens' spans \<Longrightarrow>
   row_spans charRow row fs n tm tokens tm' tokens' spans"
  by (auto simp: row_spans_def intro: spans_from_mono)

lemma row_spans_match:
  assumes "span_covers charRow n e token"
    and "same_shape tm tm1"
    and "\<forall>r c. marked tm1 r c = (marked tm r c \<or> (r = row \<and> n \<le> c \<and> c < e))"
    and "row_spans charRow row fs (if fs then e + 1 else e) tm1 rest tm' tokens' spans"
  shows "row_spans charRow row fs n tm (token # rest) tm' tokens' ((n, e) # spans)"
  using assms
  by (auto simp: row_spans_def span_covers_def intro: same_shape_trans)



lemma scan_spec:
  "highlightRow_scan charRow row tm tokens fs i = Inr (tm', tokens') \<Longrightarrow> 0 \<le> i \<Longrightarrow>
   \<exists>spans. row_spans charRow row fs (nat i) tm tokens tm' tokens' spans"
proof (induction charRow row tm tokens fs i rule: highlightRow_scan.induct)
  case (1 charRow row tm tokens fs i)
  from \<open>0 \<le> i\<close> obtain n where i: "i = int n" using nonneg_int_cases by blast
  note r = "1.prems"(1)[unfolded i scan_nat[of charRow row tm tokens fs n]]
  show ?case
  proof (cases "n < length charRow \<and> tokens \<noteq> []")
    case False
    with r have "tm' = tm" "tokens' = tokens" by (auto split: if_splits list.splits)
    then show ?thesis using row_spans_nil by blast
  next
    case True
    then obtain token rest where tk: "tokens = token # rest" by (cases tokens) auto
    from True have n: "n < length charRow" and ne: "length tokens \<noteq> 0" by simp_all
    from n i have lt: "i < int (length charRow)" by simp
    show ?thesis
    proof (cases "prefix token (concat (drop n charRow))")
      case False
      with r tk n have rec: "highlightRow_scan charRow row tm tokens fs (i + 1) = Inr (tm', tokens')"
        using i by (simp add: add.commute)
      have ns: "\<not> startswith (join (py_slice_from charRow i)) (hd tokens)"
        using False tk i by (simp add: startswith_def join_def py_slice_from_nat)
      from "1.IH"(2)[OF lt ne refl ns rec] i
      obtain spans where "row_spans charRow row fs (Suc n) tm tokens tm' tokens' spans"
        by (auto simp: nat_add_distrib)
      from row_spans_later[OF this] show ?thesis using i by auto
    next
      case True
      with r tk n obtain tm1 i1 where
        mk: "highlightRow_mark charRow row tm token (int n) = Inr (tm1, i1)" and
        rec: "highlightRow_scan charRow row tm1 rest fs (if fs then i1 + 1 else i1) = Inr (tm', tokens')"
        by (auto split: sum.splits)
      from mark_spec[OF mk] n True
      have i1: "0 \<le> i1" and cov: "span_covers charRow n (nat i1) token"
        and sh: "same_shape tm tm1"
        and mkd: "\<forall>r c. marked tm1 r c = (marked tm r c \<or> (r = row \<and> n \<le> c \<and> c < nat i1))"
        by simp_all
      have st: "startswith (join (py_slice_from charRow i)) (hd tokens)"
        using True tk i by (simp add: startswith_def join_def py_slice_from_nat)
      have mk': "highlightRow_mark charRow row tm (hd tokens) i = Inr (tm1, i1)"
        using mk tk i by simp
      have rec': "highlightRow_scan charRow row tm1 (py_slice_from tokens 1) fs
                    ((if \<not> fs then i1 - 1 else i1) + 1) = Inr (tm', tokens')"
        using rec tk by (cases fs) (simp_all add: py_slice_from_def)
      have nn: "0 \<le> (if \<not> fs then i1 - 1 else i1) + 1" using i1 by simp
      from "1.IH"(1)[OF lt ne refl st mk' refl refl rec' nn]
      obtain spans where
        "row_spans charRow row fs (nat ((if \<not> fs then i1 - 1 else i1) + 1)) tm1
           (py_slice_from tokens 1) tm' tokens' spans" by blast
      moreover have "nat ((if \<not> fs then i1 - 1 else i1) + 1) = (if fs then nat i1 + 1 else nat i1)"
        using i1 by (simp add: nat_add_distrib)
      moreover have "py_slice_from tokens 1 = rest" using tk by (simp add: py_slice_from_def)
      ultimately have "row_spans charRow row fs (if fs then nat i1 + 1 else nat i1) tm1 rest
           tm' tokens' spans" by simp
      from row_spans_match[OF cov sh mkd this] show ?thesis using tk i by auto
    qed
  qed
qed

lemma highlightRow_spec:
  assumes "highlightRow charRow row tm tokens fs = Inr (tm', consumed)"
  shows "\<exists>spans. consumed = int (length spans) \<and>
           row_spans charRow row fs 0 tm tokens tm' (drop (length spans) tokens) spans"
proof -
  from assms obtain tokens' where
    sc: "highlightRow_scan charRow row tm tokens fs 0 = Inr (tm', tokens')"
    and c: "consumed = int (length tokens) - int (length tokens')"
    by (auto simp: highlightRow_def split: sum.splits)
  from scan_spec[OF sc] obtain spans where
    rs: "row_spans charRow row fs 0 tm tokens tm' tokens' spans" by auto
  then have "tokens' = drop (length spans) tokens" "length spans \<le> length tokens"
    by (simp_all add: row_spans_def)
  with c rs show ?thesis by auto
qed


lemma spans_from_sorted:
  "spans_from fs n spans \<Longrightarrow>
   sorted_wrt (\<lambda>(s, e) (s', e'). (if fs then e + 1 else e) \<le> s') spans \<and>
   (\<forall>(s, e) \<in> set spans. n \<le> s \<and> s \<le> e)"
proof (induction spans arbitrary: n)
  case Nil
  then show ?case by simp
next
  case (Cons sp spans)
  obtain s e where sp: "sp = (s, e)" by (cases sp)
  from Cons.prems sp have a: "n \<le> s" "s \<le> e"
    and b: "spans_from fs (if fs then e + 1 else e) spans" by simp_all
  from Cons.IH[OF b] have c: "sorted_wrt (\<lambda>(s, e) (s', e'). (if fs then e + 1 else e) \<le> s') spans"
    and d: "\<forall>(s', e') \<in> set spans. (if fs then e + 1 else e) \<le> s' \<and> s' \<le> e'" by simp_all
  from a d have "\<forall>(s', e') \<in> set spans. n \<le> s' \<and> s' \<le> e'" by (auto split: if_splits)
  with a c d sp show ?case by auto
qed

lemma row_spans_to_grid:
  assumes rs: "row_spans (cm ! row) row fs 0 tm tokens tm' tokens' spans"
    and row: "row < length cm"
  shows "grid_spans [row] cm fs tm tokens tm' tokens' (map (\<lambda>(s, e). (row, s, e)) spans)"
proof -
  let ?sp = "map (\<lambda>(s, e). (row, s, e)) spans"
  from rs have l: "length spans \<le> length tokens" and t: "tokens' = drop (length spans) tokens"
    and a: "list_all2 (\<lambda>token (s, e). span_covers (cm ! row) s e token)
              (take (length spans) tokens) spans"
    and f: "spans_from fs 0 spans" and sh: "same_shape tm tm'"
    and m: "\<forall>r c. marked tm' r c =
              (marked tm r c \<or> (r = row \<and> (\<exists>(s, e) \<in> set spans. s \<le> c \<and> c < e)))"
    by (simp_all add: row_spans_def)
  have a': "list_all2 (span_in cm) (take (length ?sp) tokens) ?sp"
    using a row by (auto simp: list_all2_conv_all_nth span_in_def split: prod.splits)
  have s': "sorted_wrt (span_before fs) ?sp"
  proof -
    have "sorted_wrt (\<lambda>a b. span_before fs (case a of (s, e) \<Rightarrow> (row, s, e))
                                           (case b of (s, e) \<Rightarrow> (row, s, e))) spans"
      using spans_from_sorted[OF f] by (simp add: span_before_def case_prod_unfold cong: if_cong)
    then show ?thesis by (simp add: sorted_wrt_map)
  qed
  have c: "\<And>r c. covered ?sp r c = (r = row \<and> (\<exists>(s, e) \<in> set spans. s \<le> c \<and> c < e))"
    by (auto simp: covered_def)
  have m': "\<forall>r c. marked tm' r c = (marked tm r c \<or> covered ?sp r c)"
    unfolding c using m by blast
  have r: "\<forall>(r, s, e) \<in> set ?sp. r \<in> set [row]" by auto
  have l': "length ?sp \<le> length tokens" and t': "tokens' = drop (length ?sp) tokens"
    using l t by simp_all
  from l' t' a' s' r sh m' show ?thesis
    unfolding grid_spans_def by blast
qed

lemma grid_spans_nil: "grid_spans rows cm fs tm tokens tm tokens []"
  by (simp add: grid_spans_def same_shape_refl covered_def)

lemma grid_spans_append:
  assumes a: "grid_spans [row] cm fs tm tokens tm1 tokens1 sp1"
    and b: "grid_spans rows cm fs tm1 tokens1 tm' tokens' sp2"
    and lt: "\<forall>r \<in> set rows. row < r"
  shows "grid_spans (row # rows) cm fs tm tokens tm' tokens' (sp1 @ sp2)"
proof -
  from a have l1: "length sp1 \<le> length tokens" and t1: "tokens1 = drop (length sp1) tokens"
    and a1: "list_all2 (span_in cm) (take (length sp1) tokens) sp1"
    and s1: "sorted_wrt (span_before fs) sp1"
    and r1: "\<forall>(r, s, e) \<in> set sp1. r = row"
    and sh1: "same_shape tm tm1"
    and m1: "\<forall>r c. marked tm1 r c = (marked tm r c \<or> covered sp1 r c)"
    by (auto simp: grid_spans_def)
  from b have l2: "length sp2 \<le> length tokens1" and t2: "tokens' = drop (length sp2) tokens1"
    and a2: "list_all2 (span_in cm) (take (length sp2) tokens1) sp2"
    and s2: "sorted_wrt (span_before fs) sp2"
    and r2: "\<forall>(r, s, e) \<in> set sp2. r \<in> set rows"
    and sh2: "same_shape tm1 tm'"
    and m2: "\<forall>r c. marked tm' r c = (marked tm1 r c \<or> covered sp2 r c)"
    by (auto simp: grid_spans_def)
  have l: "length (sp1 @ sp2) \<le> length tokens" using l1 l2 t1 by simp
  have t: "tokens' = drop (length (sp1 @ sp2)) tokens" using t1 t2 by (simp add: add.commute)
  have tk: "take (length (sp1 @ sp2)) tokens = take (length sp1) tokens @ take (length sp2) tokens1"
    using t1 by (simp add: take_add)
  have al: "list_all2 (span_in cm) (take (length (sp1 @ sp2)) tokens) (sp1 @ sp2)"
    unfolding tk using a1 a2 by (rule list_all2_appendI)
  have cross: "\<forall>x \<in> set sp1. \<forall>y \<in> set sp2. span_before fs x y"
    using r1 r2 lt by (fastforce simp: span_before_def)
  have s: "sorted_wrt (span_before fs) (sp1 @ sp2)"
    using s1 s2 cross by (simp add: sorted_wrt_append)
  have r: "\<forall>(r, s, e) \<in> set (sp1 @ sp2). r \<in> set (row # rows)"
    using r1 r2 by auto
  have c: "\<And>r c. covered (sp1 @ sp2) r c = (covered sp1 r c \<or> covered sp2 r c)"
    by (auto simp: covered_def)
  have m: "\<forall>r c. marked tm' r c = (marked tm r c \<or> covered (sp1 @ sp2) r c)"
    using m1 m2 by (simp add: c)
  from l t al s r same_shape_trans[OF sh1 sh2] m show ?thesis
    unfolding grid_spans_def by blast
qed

lemma highlight_rows_spec:
  "highlight_rows rows cm tm tokens fs = Inr (tm', tokens') \<Longrightarrow> sorted_wrt (<) rows \<Longrightarrow>
   \<exists>spans. grid_spans rows cm fs tm tokens tm' tokens' spans"
proof (induction rows arbitrary: tm tokens)
  case Nil
  then have "tm' = tm" "tokens' = tokens" by simp_all
  then show ?case using grid_spans_nil by blast
next
  case (Cons row rows)
  show ?case
  proof (cases "tokens = []")
    case True
    with Cons.prems have "tm' = tm" "tokens' = tokens" by simp_all
    then show ?thesis using grid_spans_nil by blast
  next
    case False
    with Cons.prems(1) obtain tm1 consumed where
      row: "row < length cm" and
      hr: "highlightRow (cm ! row) row tm tokens fs = Inr (tm1, consumed)" and
      rec: "highlight_rows rows cm tm1 (py_slice_from tokens consumed) fs = Inr (tm', tokens')"
      by (auto simp: py_getitem_nat split: sum.splits if_splits)
    from highlightRow_spec[OF hr] obtain sp1 where
      c: "consumed = int (length sp1)" and
      rs: "row_spans (cm ! row) row fs 0 tm tokens tm1 (drop (length sp1) tokens) sp1"
      by auto
    from rec c have rec': "highlight_rows rows cm tm1 (drop (length sp1) tokens) fs = Inr (tm', tokens')"
      by (simp add: py_slice_from_nat)
    from Cons.prems(2) have srt: "sorted_wrt (<) rows" and lt: "\<forall>r \<in> set rows. row < r"
      by simp_all
    from Cons.IH[OF rec' srt] obtain sp2 where
      g2: "grid_spans rows cm fs tm1 (drop (length sp1) tokens) tm' tokens' sp2" by auto
    from grid_spans_append[OF row_spans_to_grid[OF rs row] g2 lt] show ?thesis by blast
  qed
qed

section \<open>The clock and the delay\<close>

lemma toSeconds_fromSeconds: "toSeconds (fromSeconds s) = s mod 86400"
  by (simp add: fromSeconds_def)

lemma wall_seconds_bounds:
  assumes "valid_datetime now"
  shows "0 \<le> wall_seconds now" and "wall_seconds now < 86400"
proof -
  let ?w = "hour now * 60 * 60 + minute now * 60 + second now"
  from assms have w: "0 \<le> ?w" "?w \<le> 86399"
    by (auto simp: valid_datetime_def)
  from assms have m: "0 \<le> microsecond now" "microsecond now < 1000000"
    by (auto simp: valid_datetime_def)
  have f0: "0 \<le> (of_int (microsecond now) :: real) / 1000000" using m by simp
  have f1: "(of_int (microsecond now) :: real) / 1000000 < 1" using m by simp
  have w0: "(0::real) \<le> of_int ?w" using w(1) by linarith
  have w1: "(of_int ?w :: real) \<le> 86399" using w(2) by linarith
  show "0 \<le> wall_seconds now" unfolding wall_seconds_def using w0 f0 by linarith
  show "wall_seconds now < 86400" unfolding wall_seconds_def using w1 f1 by linarith
qed

lemma foldl_gcd: "0 \<le> x \<Longrightarrow> foldl gcd_py x xs = gcd x (Gcd (set xs))"
  by (induction xs arbitrary: x) (simp_all add: gcd_py_def gcd.assoc)

lemma calcDelay_Gcd:
  assumes "times_keys lay \<noteq> []" and "\<forall>t \<in> set (times_keys lay). valid_time t"
  shows "calcDelay lay = Inr (Gcd (toSeconds ` set (times_keys lay)))"
proof -
  from assms(1) obtain t ts where k: "times_keys lay = t # ts" by (cases "times_keys lay") auto
  with assms(2) have "0 \<le> toSeconds t" by (simp add: valid_time_def)
  then have "foldl gcd_py (toSeconds t) (map toSeconds ts) = gcd (toSeconds t) (Gcd (set (map toSeconds ts)))"
    by (rule foldl_gcd)
  then show ?thesis by (simp add: calcDelay_def py_reduce_def k)
qed

lemma QlockThread_init_delay:
  "QlockThread_init lower mkSolver win lay now = Inr q \<Longrightarrow> calcDelay lay = Inr (delay q)"
  by (auto simp: QlockThread_init_def StateMachine_init_def Let_def StateMachine.defs QlockThread.defs
      split: sum.splits if_splits)

lemma operation_flags:
  "operation s s' \<Longrightarrow> (windowSighted s \<longrightarrow> windowSighted s') \<and> (stop_flag s \<longrightarrow> stop_flag s')"
  by (induction rule: operation.induct)
     (auto simp: shouldStop_def stop_def run_tick_def Let_def cleanup_def drawMatrix_def step_def
        split: sum.splits if_splits prod.splits)

lemma operations_flags:
  "operation\<^sup>*\<^sup>* s s' \<Longrightarrow> (windowSighted s \<longrightarrow> windowSighted s') \<and> (stop_flag s \<longrightarrow> stop_flag s')"
  by (induction rule: rtranclp_induct) (auto dest: operation_flags)



section \<open>Spans of single characters, and one step of the scan\<close>

lemma length_concat_single:
  "\<forall>x \<in> set xs. length x = 1 \<Longrightarrow> length (concat xs) = length xs"
  by (induction xs) auto

lemma length_cells_text_single:
  assumes "\<forall>cell \<in> set charRow. length cell = 1" and "e \<le> length charRow"
  shows "length (cells_text charRow s e) = e - s"
proof -
  have "set (take (e - s) (drop s charRow)) \<subseteq> set charRow"
    by (meson set_drop_subset set_take_subset subset_trans)
  with assms(1) have "\<forall>x \<in> set (take (e - s) (drop s charRow)). length x = 1" by blast
  then have "length (cells_text charRow s e) = length (take (e - s) (drop s charRow))"
    unfolding cells_text_def by (rule length_concat_single)
  with assms(2) show ?thesis by simp
qed

lemma span_covers_single:
  assumes c: "span_covers charRow s e token"
    and one: "\<forall>cell \<in> set charRow. length cell = 1"
  shows "cells_text charRow s e = token"
proof -
  from c have se: "s \<le> e" "e \<le> length charRow"
    and p: "prefix token (cells_text charRow s e)"
    and m: "s < e \<longrightarrow> length (cells_text charRow s (e - 1)) < length token"
    by (simp_all add: span_covers_def)
  have l: "length (cells_text charRow s e) = e - s"
    using one se(2) by (rule length_cells_text_single)
  have "length (cells_text charRow s e) \<le> length token"
  proof (cases "s < e")
    case False
    with l show ?thesis by simp
  next
    case True
    from se have "e - 1 \<le> length charRow" by simp
    with one have "length (cells_text charRow s (e - 1)) = e - 1 - s"
      by (rule length_cells_text_single)
    with m True l show ?thesis by simp
  qed
  with p show ?thesis
    by (auto simp: prefix_def)
qed

lemma scan_match_step:
  assumes "i < int (length charRow)" and "tokens \<noteq> []"
    and "startswith (join (py_slice_from charRow i)) (hd tokens)"
    and "highlightRow_mark charRow row tm (hd tokens) i = Inr (tm1, i1)"
  shows "highlightRow_scan charRow row tm tokens fs i =
           highlightRow_scan charRow row tm1 (py_slice_from tokens 1) fs
             ((if \<not> fs then i1 - 1 else i1) + 1)"
  using assms by (subst highlightRow_scan.simps) (simp add: Let_def)

section \<open>Rows without a match, and runs without an exception\<close>

lemma scan_no_match:
  "\<forall>j. n \<le> j \<and> j < length charRow \<longrightarrow> \<not> prefix token (concat (drop j charRow)) \<Longrightarrow>
   highlightRow_scan charRow row tm (token # rest) fs (int n) = Inr (tm, token # rest)"
proof (induction "length charRow - n" arbitrary: n)
  case 0
  then have "\<not> n < length charRow" by simp
  then show ?case by (simp add: scan_nat[of charRow row tm "token # rest" fs n])
next
  case (Suc k)
  then have n: "n < length charRow" and k: "k = length charRow - Suc n" by simp_all
  from Suc.prems n have np: "\<not> prefix token (concat (drop n charRow))" by simp
  from Suc.prems have "\<forall>j. Suc n \<le> j \<and> j < length charRow \<longrightarrow>
      \<not> prefix token (concat (drop j charRow))" by simp
  from Suc.hyps(1)[OF k this]
  have "highlightRow_scan charRow row tm (token # rest) fs (int (Suc n)) = Inr (tm, token # rest)" .
  with n np show ?case by (simp add: scan_nat[of charRow row tm "token # rest" fs n])
qed

lemma highlight_rows_step:
  assumes "tokens \<noteq> []" and "py_getitem cm (int row) = Inr charRow"
    and "highlightRow charRow row tm tokens fs = Inr (tm1, consumed)"
  shows "highlight_rows (row # rows) cm tm tokens fs
           = highlight_rows rows cm tm1 (py_slice_from tokens consumed) fs"
  using assms by simp

lemma same_shape_length: "same_shape a b \<Longrightarrow> length a = length b"
  unfolding same_shape_def by (rule map_eq_imp_length_eq)

lemma same_shape_nth: "same_shape a b \<Longrightarrow> r < length a \<Longrightarrow> length (a ! r) = length (b ! r)"
proof -
  assume s: "same_shape a b" and r: "r < length a"
  then have rb: "r < length b" by (simp add: same_shape_length)
  from s have "map length a ! r = map length b ! r" by (simp add: same_shape_def)
  with r rb show ?thesis by simp
qed

lemma mark_ok:
  "n \<le> length charRow \<Longrightarrow> prefix token (concat (drop n charRow)) \<Longrightarrow> row < length tm \<Longrightarrow>
   length charRow \<le> length (tm ! row) \<Longrightarrow>
   \<exists>tm' i'. highlightRow_mark charRow row tm token (int n) = Inr (tm', i')"
proof (induction "length charRow - n" arbitrary: n tm token)
  case 0
  then have "drop n charRow = []" by simp
  with "0.prems"(2) have "token = []" by simp
  then show ?case by (simp add: mark_nat[of charRow row tm "[]" n])
next
  case (Suc k)
  then have n: "n < length charRow" and k: "k = length charRow - Suc n" by simp_all
  show ?case
  proof (cases "token = []")
    case True
    then show ?thesis by (simp add: mark_nat[of charRow row tm "[]" n])
  next
    case False
    let ?tm1 = "tm[row := (tm ! row)[n := True]]"
    let ?tok' = "drop (length (charRow ! n)) token"
    from n have a: "Suc n \<le> length charRow" by simp
    from Suc.prems(2) n have b: "prefix ?tok' (concat (drop (Suc n) charRow))"
      by (simp add: concat_drop_step prefix_drop_cell)
    from Suc.prems(3) have c: "row < length ?tm1" by simp
    from Suc.prems(3,4) have d: "length charRow \<le> length (?tm1 ! row)" by simp
    from Suc.hyps(1)[OF k a b c d] obtain tm' i' where
      "highlightRow_mark charRow row ?tm1 ?tok' (int (Suc n)) = Inr (tm', i')" by blast
    with False n Suc.prems(3,4) show ?thesis
      by (simp add: mark_nat[of charRow row tm token n])
  qed
qed

lemma scan_ok:
  "0 \<le> i \<Longrightarrow> row < length tm \<Longrightarrow> length charRow \<le> length (tm ! row) \<Longrightarrow>
   \<exists>res. highlightRow_scan charRow row tm tokens fs i = Inr res"
proof (induction charRow row tm tokens fs i rule: highlightRow_scan.induct)
  case (1 charRow row tm tokens fs i)
  from \<open>0 \<le> i\<close> obtain n where i: "i = int n" using nonneg_int_cases by blast
  note sn = scan_nat[of charRow row tm tokens fs n]
  show ?case
  proof (cases "n < length charRow \<and> tokens \<noteq> []")
    case False
    then show ?thesis using i sn by (auto split: list.splits)
  next
    case True
    then obtain token rest where tk: "tokens = token # rest" by (cases tokens) auto
    from True have n: "n < length charRow" and ne: "length tokens \<noteq> 0" by simp_all
    from n i have lt: "i < int (length charRow)" by simp
    show ?thesis
    proof (cases "prefix token (concat (drop n charRow))")
      case False
      have ns: "\<not> startswith (join (py_slice_from charRow i)) (hd tokens)"
        using False tk i by (simp add: startswith_def join_def py_slice_from_nat)
      from "1.IH"(2)[OF lt ne refl ns _ "1.prems"(2,3)] i
      obtain res where "highlightRow_scan charRow row tm tokens fs (int (Suc n)) = Inr res"
        by (auto simp: add.commute)
      with False n tk show ?thesis using i sn by simp
    next
      case True
      from n have nle: "n \<le> length charRow" by simp
      from mark_ok[OF nle True "1.prems"(2,3)] obtain tm1 i1 where
        mk: "highlightRow_mark charRow row tm token (int n) = Inr (tm1, i1)" by blast
      from mark_spec[OF mk] n True
      have i1: "0 \<le> i1" and sh: "same_shape tm tm1" by simp_all
      have st: "startswith (join (py_slice_from charRow i)) (hd tokens)"
        using True tk i by (simp add: startswith_def join_def py_slice_from_nat)
      have mk': "highlightRow_mark charRow row tm (hd tokens) i = Inr (tm1, i1)"
        using mk tk i by simp
      have nn: "0 \<le> (if \<not> fs then i1 - 1 else i1) + 1" using i1 by simp
      have r1: "row < length tm1" using "1.prems"(2) sh by (simp add: same_shape_length)
      have r2: "length charRow \<le> length (tm1 ! row)"
        using "1.prems"(2,3) same_shape_nth[OF sh] by simp
      from "1.IH"(1)[OF lt ne refl st mk' refl refl nn r1 r2]
      obtain res where
        "highlightRow_scan charRow row tm1 (py_slice_from tokens 1) fs
           ((if \<not> fs then i1 - 1 else i1) + 1) = Inr res" by blast
      then have "highlightRow_scan charRow row tm1 rest fs (if fs then i1 + 1 else i1) = Inr res"
        using tk by (cases fs) (simp_all add: py_slice_from_def)
      with True n tk mk show ?thesis using i sn by simp
    qed
  qed
qed

lemma highlight_rows_ok:
  "\<forall>row \<in> set rows. row < length cm \<and> row < length tm \<and> length (cm ! row) \<le> length (tm ! row) \<Longrightarrow>
   \<exists>res. highlight_rows rows cm tm tokens fs = Inr res"
proof (induction rows arbitrary: tm tokens)
  case Nil
  then show ?case by simp
next
  case (Cons row rows)
  show ?case
  proof (cases "tokens = []")
    case True
    then show ?thesis by simp
  next
    case False
    from Cons.prems have r: "row < length cm" "row < length tm"
      "length (cm ! row) \<le> length (tm ! row)" by simp_all
    from scan_ok[of 0 row tm "cm ! row" tokens fs] r obtain tm1 tokens1 where
      "highlightRow_scan (cm ! row) row tm tokens fs 0 = Inr (tm1, tokens1)" by auto
    then obtain consumed where
      hr: "highlightRow (cm ! row) row tm tokens fs = Inr (tm1, consumed)"
      by (simp add: highlightRow_def)
    from highlightRow_spec[OF hr] obtain spans where
      "row_spans (cm ! row) row fs 0 tm tokens tm1 (drop (length spans) tokens) spans" by blast
    then have sh: "same_shape tm tm1" by (simp add: row_spans_def)
    have "\<forall>row \<in> set rows. row < length cm \<and> row < length tm1 \<and>
            length (cm ! row) \<le> length (tm1 ! row)"
      using Cons.prems same_shape_length[OF sh] same_shape_nth[OF sh] by auto
    from Cons.IH[OF this] obtain res where
      "highlight_rows rows cm tm1 (py_slice_from tokens consumed) fs = Inr res" by blast
    with False r hr show ?thesis by (simp add: py_getitem_nat)
  qed
qed

lemma highlight_ok:
  assumes "wf_layout lay"
  shows "\<exists>tm' ok. highlight lay (matrix lay) (createTruthMatrix (height lay) (width lay))
           tokens fs = Inr (tm', ok)"
proof -
  let ?tm = "createTruthMatrix (height lay) (width lay)"
  have "\<forall>row \<in> set [0..<height lay]. row < length (matrix lay) \<and> row < length ?tm \<and>
          length (matrix lay ! row) \<le> length (?tm ! row)"
    using assms by (auto simp: wf_layout_def createTruthMatrix_def)
  from highlight_rows_ok[OF this] obtain res where
    "highlight_rows [0..<height lay] (matrix lay) ?tm tokens fs = Inr res" by blast
  then show ?thesis by (cases res) (simp add: highlight_def)
qed

lemma highlight_spec:
  assumes "highlight lay cm tm tokens fs = Inr (tm', ok)"
  shows "\<exists>spans. grid_spans [0..<height lay] cm fs tm tokens tm' (drop (length spans) tokens) spans
           \<and> ok = (length spans = length tokens)"
proof -
  from assms obtain tokens' where
    hr: "highlight_rows [0..<height lay] cm tm tokens fs = Inr (tm', tokens')"
    and ok: "ok = (length tokens' = 0)"
    by (auto simp: highlight_def split: sum.splits)
  have "sorted_wrt (<) [0..<height lay]" by simp
  from highlight_rows_spec[OF hr this] obtain spans where
    g: "grid_spans [0..<height lay] cm fs tm tokens tm' tokens' spans" by blast
  then have le: "length spans \<le> length tokens" and d: "tokens' = drop (length spans) tokens"
    by (simp_all add: grid_spans_def)
  from ok d le have "ok = (length spans = length tokens)" by auto
  with g d show ?thesis by blast
qed

section \<open>The runs on the store and the runs on values\<close>

lemma heap_extends_refl: "heap_extends h h"
  by (simp add: heap_extends_def)

lemma heap_extends_trans: "heap_extends a b \<Longrightarrow> heap_extends b c \<Longrightarrow> heap_extends a c"
  by (auto simp: heap_extends_def)

lemma heap_extends_new: "heap_extends h (h @ [v])"
  by (simp add: heap_extends_def nth_append)

lemma heap_extends_nth: "heap_extends h h' \<Longrightarrow> r < length h \<Longrightarrow> h' ! r = h ! r"
  by (simp add: heap_extends_def)

lemma heap_extends_length: "heap_extends h h' \<Longrightarrow> r < length h \<Longrightarrow> r < length h'"
  by (simp add: heap_extends_def)

lemma tracks_return: "t < length h \<Longrightarrow> tracks h (h, Inr (x, t)) (Inr (x, h ! t))"
  by (simp add: tracks_def heap_extends_refl)

lemma tracks_raise: "tracks h (h, Inl e) (Inl e)"
  by (simp add: tracks_def heap_extends_refl)

lemma tracks_mono: "heap_extends h h1 \<Longrightarrow> tracks h1 res pure \<Longrightarrow> tracks h res pure"
  by (auto simp: tracks_def intro: heap_extends_trans split: prod.splits sum.splits)

lemma scan_h_tracks:
  "tokens < length h \<Longrightarrow>
   tracks h (highlightRow_scan_h charRow row tm h tokens fs i)
            (highlightRow_scan charRow row tm (h ! tokens) fs i)"
proof (induction charRow row tm h tokens fs i rule: highlightRow_scan_h.induct)
  case (1 charRow row tm h tokens fs i)
  note lhs = highlightRow_scan_h.simps[of charRow row tm h tokens fs i]
  note rhs = highlightRow_scan.simps[of charRow row tm "h ! tokens" fs i]
  show ?case
  proof (cases "i < int (length charRow) \<and> length (h ! tokens) \<noteq> 0")
    case False
    then have "highlightRow_scan_h charRow row tm h tokens fs i = (h, Inr (tm, tokens))"
      and "highlightRow_scan charRow row tm (h ! tokens) fs i = Inr (tm, h ! tokens)"
      using lhs rhs by auto
    with "1.prems" show ?thesis by (simp add: tracks_return)
  next
    case True
    then have lt: "i < int (length charRow)" and ne: "length (h ! tokens) \<noteq> 0" by simp_all
    show ?thesis
    proof (cases "startswith (join (py_slice_from charRow i)) (hd (h ! tokens))")
      case False
      from lt ne False have
        l: "highlightRow_scan_h charRow row tm h tokens fs i
              = highlightRow_scan_h charRow row tm h tokens fs (i + 1)" and
        r: "highlightRow_scan charRow row tm (h ! tokens) fs i
              = highlightRow_scan charRow row tm (h ! tokens) fs (i + 1)"
        using lhs rhs by (simp_all add: Let_def)
      from "1.IH"(2)[OF lt ne refl False "1.prems"] l r show ?thesis by simp
    next
      case st: True
      show ?thesis
      proof (cases "highlightRow_mark charRow row tm (hd (h ! tokens)) i")
        case (Inl e)
        with lt ne st have
          "highlightRow_scan_h charRow row tm h tokens fs i = (h, Inl e)" and
          "highlightRow_scan charRow row tm (h ! tokens) fs i = Inl e"
          using lhs rhs by (simp_all add: Let_def)
        then show ?thesis by (simp add: tracks_raise)
      next
        case (Inr res)
        obtain tm1 i1 where res: "res = (tm1, i1)" by (cases res)
        let ?h1 = "h @ [py_slice_from (h ! tokens) 1]"
        let ?i2 = "(if \<not> fs then i1 - 1 else i1) + 1"
        have sl: "slice_from_h h tokens 1 = (?h1, length h)"
          by (simp add: slice_from_h_def new_list_def)
        from lt ne st Inr res sl have
          l: "highlightRow_scan_h charRow row tm h tokens fs i
                = highlightRow_scan_h charRow row tm1 ?h1 (length h) fs ?i2" and
          r: "highlightRow_scan charRow row tm (h ! tokens) fs i
                = highlightRow_scan charRow row tm1 (py_slice_from (h ! tokens) 1) fs ?i2"
          using lhs rhs by (simp_all add: Let_def)
        have mk: "highlightRow_mark charRow row tm (hd (h ! tokens)) i = Inr (tm1, i1)"
          using Inr res by simp
        have nl: "length h < length ?h1" by simp
        from "1.IH"(1)[OF lt ne refl st mk refl refl sl[symmetric] nl]
        have "tracks ?h1 (highlightRow_scan_h charRow row tm1 ?h1 (length h) fs ?i2)
                (highlightRow_scan charRow row tm1 (py_slice_from (h ! tokens) 1) fs ?i2)"
          by simp
        from tracks_mono[OF heap_extends_new this] l r show ?thesis by simp
      qed
    qed
  qed
qed

lemma highlightRow_h_spec:
  assumes "tokens < length h"
  shows "heap_extends h (fst (highlightRow_h charRow row tm h tokens fs))
       \<and> snd (highlightRow_h charRow row tm h tokens fs)
           = highlightRow charRow row tm (h ! tokens) fs"
proof -
  obtain h' r where sc: "highlightRow_scan_h charRow row tm h tokens fs 0 = (h', r)"
    by (cases "highlightRow_scan_h charRow row tm h tokens fs 0")
  from scan_h_tracks[OF assms, of charRow row tm fs 0] sc
  have ext: "heap_extends h h'"
    and rel: "case r of
                Inl e \<Rightarrow> highlightRow_scan charRow row tm (h ! tokens) fs 0 = Inl e
              | Inr (x, t') \<Rightarrow> t' < length h' \<and>
                  highlightRow_scan charRow row tm (h ! tokens) fs 0 = Inr (x, h' ! t')"
    by (simp_all add: tracks_def)
  from heap_extends_nth[OF ext assms] have same: "h' ! tokens = h ! tokens" .
  show ?thesis
  proof (cases r)
    case (Inl e)
    with sc rel ext show ?thesis by (simp add: highlightRow_h_def highlightRow_def)
  next
    case (Inr res)
    obtain tm' t' where "res = (tm', t')" by (cases res)
    with Inr sc rel ext same show ?thesis by (simp add: highlightRow_h_def highlightRow_def)
  qed
qed

lemma highlight_rows_h_tracks:
  "tokens < length h \<Longrightarrow>
   tracks h (highlight_rows_h rows cm tm h tokens fs) (highlight_rows rows cm tm (h ! tokens) fs)"
proof (induction rows arbitrary: tm h tokens)
  case Nil
  then show ?case by (simp add: tracks_return)
next
  case (Cons row rows)
  show ?case
  proof (cases "length (h ! tokens) = 0")
    case True
    then have l: "highlight_rows_h (row # rows) cm tm h tokens fs = (h, Inr (tm, tokens))"
      and r: "highlight_rows (row # rows) cm tm (h ! tokens) fs = Inr (tm, h ! tokens)"
      by simp_all
    from tracks_return[OF Cons.prems, of tm] show ?thesis by (simp only: l r)
  next
    case ne: False
    show ?thesis
    proof (cases "py_getitem cm (int row)")
      case (Inl e)
      with ne show ?thesis by (simp add: tracks_raise)
    next
      case (Inr charRow)
      obtain h1 r where hr: "highlightRow_h charRow row tm h tokens fs = (h1, r)"
        by (cases "highlightRow_h charRow row tm h tokens fs")
      from highlightRow_h_spec[OF Cons.prems, of charRow row tm fs] hr
      have ext: "heap_extends h h1"
        and pr: "highlightRow charRow row tm (h ! tokens) fs = r" by simp_all
      show ?thesis
      proof (cases r)
        case (Inl e)
        with ne Inr hr pr ext show ?thesis by (simp add: tracks_def)
      next
        case rr: (Inr res)
        obtain tm1 consumed where res: "res = (tm1, consumed)" by (cases res)
        let ?h2 = "h1 @ [py_slice_from (h1 ! tokens) consumed]"
        have sl: "slice_from_h h1 tokens consumed = (?h2, length h1)"
          by (simp add: slice_from_h_def new_list_def)
        from heap_extends_nth[OF ext Cons.prems] have same: "h1 ! tokens = h ! tokens" .
        have nl: "length h1 < length ?h2" by simp
        from Cons.IH[OF nl, of tm1]
        have t: "tracks ?h2 (highlight_rows_h rows cm tm1 ?h2 (length h1) fs)
                   (highlight_rows rows cm tm1 (py_slice_from (h ! tokens) consumed) fs)"
          by (simp add: same)
        have e2: "heap_extends h ?h2"
          using ext heap_extends_new by (rule heap_extends_trans)
        from ne Inr hr rr res sl pr have
          l: "highlight_rows_h (row # rows) cm tm h tokens fs
                = highlight_rows_h rows cm tm1 ?h2 (length h1) fs" and
          r: "highlight_rows (row # rows) cm tm (h ! tokens) fs
                = highlight_rows rows cm tm1 (py_slice_from (h ! tokens) consumed) fs"
          by simp_all
        from tracks_mono[OF e2 t] l r show ?thesis by simp
      qed
    qed
  qed
qed

lemma highlight_h_spec:
  assumes "tokens < length h"
  shows "heap_extends h (fst (highlight_h lay cm tm h tokens fs))
       \<and> snd (highlight_h lay cm tm h tokens fs) = highlight lay cm tm (h ! tokens) fs"
proof -
  obtain h' r where hr: "highlight_rows_h [0..<height lay] cm tm h tokens fs = (h', r)"
    by (cases "highlight_rows_h [0..<height lay] cm tm h tokens fs")
  from highlight_rows_h_tracks[OF assms, of "[0..<height lay]" cm tm fs] hr
  have ext: "heap_extends h h'"
    and rel: "case r of
                Inl e \<Rightarrow> highlight_rows [0..<height lay] cm tm (h ! tokens) fs = Inl e
              | Inr (x, t') \<Rightarrow> t' < length h' \<and>
                  highlight_rows [0..<height lay] cm tm (h ! tokens) fs = Inr (x, h' ! t')"
    by (simp_all add: tracks_def)
  show ?thesis
  proof (cases r)
    case (Inl e)
    with hr rel ext show ?thesis by (simp add: highlight_h_def highlight_def)
  next
    case (Inr res)
    obtain tm' t' where "res = (tm', t')" by (cases res)
    with Inr hr rel ext show ?thesis by (simp add: highlight_h_def highlight_def)
  qed
qed


lemma step_h_spec:
  "heap_extends (h @ [solver self time]) (fst (step_h self time h))
   \<and> snd (step_h self time h) = step self time"
proof -
  let ?sol = "solver self time"
  let ?h0 = "h @ [?sol]"
  let ?lay = "layout self"
  let ?fresh = "createTruthMatrix (height ?lay) (width ?lay)"
  have nl: "new_list h ?sol = (?h0, length h)" by (simp add: new_list_def)
  have s0: "length h < length ?h0" by simp
  have g0: "?h0 ! length h = ?sol" by simp
  have e0: "heap_extends h ?h0" by (rule heap_extends_new)
  obtain h1 r1 where a1: "highlight_h ?lay (matrix ?lay) ?fresh ?h0 (length h) True = (h1, r1)"
    by (cases "highlight_h ?lay (matrix ?lay) ?fresh ?h0 (length h) True")
  from highlight_h_spec[OF s0, of ?lay "matrix ?lay" ?fresh True] a1 g0
  have e1: "heap_extends ?h0 h1"
    and p1: "highlight ?lay (matrix ?lay) ?fresh ?sol True = r1" by simp_all
  note e01 = e1
  show ?thesis
  proof (cases r1)
    case (Inl e)
    with nl a1 p1 e01 show ?thesis by (simp add: step_h_def step_def Let_def)
  next
    case (Inr res)
    obtain tm1 ok where res: "res = (tm1, ok)" by (cases res)
    show ?thesis
    proof (cases ok)
      case True
      with nl a1 p1 e01 Inr res show ?thesis by (simp add: step_h_def step_def Let_def)
    next
      case False
      from heap_extends_length[OF e1 s0] have s1: "length h < length h1" .
      from heap_extends_nth[OF e1 s0] g0 have g1: "h1 ! length h = ?sol" by simp
      obtain h2 r2 where a2: "highlight_h ?lay (matrix ?lay) ?fresh h1 (length h) False = (h2, r2)"
        by (cases "highlight_h ?lay (matrix ?lay) ?fresh h1 (length h) False")
      from highlight_h_spec[OF s1, of ?lay "matrix ?lay" ?fresh False] a2 g1
      have e2: "heap_extends h1 h2"
        and p2: "highlight ?lay (matrix ?lay) ?fresh ?sol False = r2" by simp_all
      from e01 e2 have e02: "heap_extends ?h0 h2" by (rule heap_extends_trans)
      show ?thesis
      proof (cases r2)
        case (Inl e)
        with nl a1 p1 Inr res False a2 p2 e02 show ?thesis
          by (simp add: step_h_def step_def Let_def)
      next
        case r2r: (Inr res2)
        obtain tm3 ok3 where "res2 = (tm3, ok3)" by (cases res2)
        with r2r nl a1 p1 Inr res False a2 p2 e02 show ?thesis
          by (simp add: step_h_def step_def Let_def)
      qed
    qed
  qed
qed

section \<open>Concrete objects for the examples\<close>

definition example_row :: charRow where
  "example_row = [''a'', ''h'', ''a'', ''l'', ''f'']"

definition example_layout :: Layout where
  "example_layout =
     \<lparr>height = 1, width = 5, matrix = [example_row],
      times_keys = [Time 300, Time 600, Time 900]\<rparr>"

definition example_thread :: QlockThread where
  "example_thread =
     \<lparr>stop_flag = False, delay = 300, state = Time 86300, windowSighted = False,
      window = [], layout = example_layout, solver = (\<lambda>t. [''a'', ''half''])\<rparr>"

definition example_now :: datetime where
  "example_now = \<lparr>hour = 23, minute = 59, second = 10, microsecond = 0\<rparr>"

section \<open>The claims\<close>

text \<open>
  C3. On the single row a, h, a, l, f with the tokens a, half and \<open>forceSpace\<close> false,
  \<open>highlightRow\<close> returns 2 as the number of tokens consumed and all five cells are set: the
  two words are matched next to each other, with no cell between them.
\<close>

theorem highlightRow_relaxed_example:
  "highlightRow example_row 0 (createTruthMatrix 1 5) [''a'', ''half''] False
     = Inr ([[True, True, True, True, True]], 2)"
  by code_simp

text \<open>
  C6. For every state and delay, the state after a tick is the current seconds plus the
  delay, modulo 86400; the time to sleep is the seconds of that state minus the seconds of
  the day on the wall clock, plus 86400 when the difference is negative, and it is never
  negative. From 86300 with a delay of 300 the next state is 200, and at 23:59:10 (86350
  seconds) the time to sleep is 250 seconds.
\<close>

theorem run_tick_sleep:
  assumes "valid_datetime now"
  shows "toSeconds (state (fst (run_tick self now)))
           = (toSeconds (state self) + delay self) mod 86400
       \<and> snd (run_tick self now) =
           (let d = of_int (toSeconds (state (fst (run_tick self now)))) - wall_seconds now
            in if d < 0 then d + 86400 else d)
       \<and> 0 \<le> snd (run_tick self now)
       \<and> toSeconds (state (fst (run_tick example_thread example_now))) = 200
       \<and> wall_seconds example_now = 86350
       \<and> snd (run_tick example_thread example_now) = 250"
proof -
  let ?n = "(toSeconds (state self) + delay self) mod 86400"
  have n: "0 \<le> ?n" by simp
  have st: "toSeconds (state (fst (run_tick self now))) = ?n"
    by (simp add: run_tick_def Let_def next_seconds_def toSeconds_fromSeconds)
  have sl: "snd (run_tick self now) =
           (let d = of_int ?n - wall_seconds now in if d < 0 then d + 86400 else d)"
    by (simp add: run_tick_def Let_def next_seconds_def toSeconds_fromSeconds)
  have rn: "(0::real) \<le> of_int ?n" using n by linarith
  have nn: "0 \<le> (let d = (of_int ?n :: real) - wall_seconds now
                  in if d < 0 then d + 86400 else d)"
    unfolding Let_def using wall_seconds_bounds[OF assms] rn by auto
  have e1: "toSeconds (state (fst (run_tick example_thread example_now))) = 200"
    by (simp add: run_tick_def Let_def next_seconds_def toSeconds_fromSeconds example_thread_def)
  have e2: "wall_seconds example_now = 86350"
    by (simp add: wall_seconds_def example_now_def)
  have e3: "snd (run_tick example_thread example_now) = 250"
    by (simp add: run_tick_def Let_def next_seconds_def toSeconds_fromSeconds
        example_thread_def wall_seconds_def example_now_def)
  from st sl nn e1 e2 e3 show ?thesis by simp
qed

theorem run_tick_sleep_witness:
  "toSeconds (state (fst (run_tick (stop example_thread) example_now))) = 200
   \<and> 0 \<le> snd (run_tick (stop example_thread) example_now)"
  using run_tick_sleep[of example_now "stop example_thread"]
  by (simp add: valid_datetime_def example_now_def example_thread_def stop_def)

text \<open>
  C7. \<open>shouldStop\<close> answers true whenever the window was sighted before and is not visible
  now, whatever the stop flag; whenever the window is visible the call records that it was
  sighted; in every other case the answer is the stop flag. No operation on the thread
  object resets the sighted flag or the stop flag once it is set.
\<close>

theorem shouldStop_and_flags:
  "(windowSighted self \<and> \<not> visible \<longrightarrow> fst (shouldStop visible self))
   \<and> (visible \<longrightarrow> windowSighted (snd (shouldStop visible self)))
   \<and> (\<not> (windowSighted self \<and> \<not> visible)
        \<longrightarrow> fst (shouldStop visible self) = stop_flag self)
   \<and> (operation\<^sup>*\<^sup>* s s'
        \<longrightarrow> (windowSighted s \<longrightarrow> windowSighted s') \<and> (stop_flag s \<longrightarrow> stop_flag s'))"
  using operations_flags[of s s'] by (auto simp: shouldStop_def)

theorem shouldStop_and_flags_witness:
  "fst (shouldStop False (snd (shouldStop True example_thread)))
   \<and> windowSighted (snd (shouldStop True example_thread))
   \<and> fst (shouldStop False example_thread) = stop_flag example_thread
   \<and> windowSighted (cleanup (stop (snd (shouldStop True example_thread))))"
proof -
  let ?s1 = "snd (shouldStop True example_thread)"
  have a: "windowSighted ?s1"
    using shouldStop_and_flags[of example_thread True example_thread example_thread] by simp
  have b: "fst (shouldStop False ?s1)"
    using shouldStop_and_flags[of ?s1 False example_thread example_thread] a by simp
  have c: "fst (shouldStop False example_thread) = stop_flag example_thread"
    using shouldStop_and_flags[of example_thread False example_thread example_thread]
    by (simp add: example_thread_def)
  have "operation ?s1 (stop ?s1)" by (rule op_stop)
  moreover have "operation (stop ?s1) (cleanup (stop ?s1))" by (rule op_cleanup)
  ultimately have "operation\<^sup>*\<^sup>* ?s1 (cleanup (stop ?s1))" by auto
  then have d: "windowSighted (cleanup (stop ?s1))"
    using shouldStop_and_flags[of example_thread True ?s1 "cleanup (stop ?s1)"] a by simp
  from a b c d show ?thesis by simp
qed

text \<open>
  C8. The delay computed when the thread is constructed is the greatest common divisor of
  the seconds of all the keys of the layout's \<open>times\<close>; for the offsets 300, 600 and 900 it
  is 300.
\<close>

theorem calcDelay_is_Gcd:
  assumes "times_keys lay \<noteq> []" and "\<forall>t \<in> set (times_keys lay). valid_time t"
  shows "calcDelay lay = Inr (Gcd (toSeconds ` set (times_keys lay)))
    \<and> (\<forall>q. QlockThread_init lower mkSolver win lay now = Inr q
          \<longrightarrow> delay q = Gcd (toSeconds ` set (times_keys lay)))
    \<and> calcDelay (lay\<lparr>times_keys := [Time 300, Time 600, Time 900]\<rparr>) = Inr 300"
proof -
  have a: "calcDelay lay = Inr (Gcd (toSeconds ` set (times_keys lay)))"
    using assms by (rule calcDelay_Gcd)
  have b: "\<forall>q. QlockThread_init lower mkSolver win lay now = Inr q
          \<longrightarrow> delay q = Gcd (toSeconds ` set (times_keys lay))"
    using a QlockThread_init_delay[of lower mkSolver win lay now] by auto
  have c: "calcDelay (lay\<lparr>times_keys := [Time 300, Time 600, Time 900]\<rparr>) = Inr 300"
    by (simp add: calcDelay_def py_reduce_def gcd_py_def)
  from a b c show ?thesis by blast
qed

theorem calcDelay_is_Gcd_witness:
  "calcDelay example_layout = Inr (Gcd {300, 600, 900}) \<and> Gcd {300, 600, 900} = (300::int)"
  using calcDelay_is_Gcd[of example_layout]
  by (simp add: example_layout_def valid_time_def)

text \<open>
  C9. When the layout has no time offsets, the computation of the delay fails (\<open>reduce\<close> of
  an empty sequence raises), and so does the construction of the thread: no default delay
  is made up.
\<close>

theorem empty_times_rejected:
  assumes "times_keys lay = []"
  shows "calcDelay lay = Inl TypeError
       \<and> QlockThread_init lower mkSolver win lay now = Inl TypeError"
  using assms by (simp add: calcDelay_def py_reduce_def QlockThread_init_def)

theorem empty_times_rejected_witness:
  "QlockThread_init (\<lambda>s. s) (\<lambda>l d t. []) [] (example_layout\<lparr>times_keys := []\<rparr>) example_now
     = Inl TypeError"
  using empty_times_rejected[of "example_layout\<lparr>times_keys := []\<rparr>" "\<lambda>s. s" "\<lambda>l d t. []" "[]"
      example_now]
  by simp

text \<open>
  C1, as amended. Whenever \<open>highlight\<close> returns success there is one span of cells per
  token, in the order of the tokens and in row-major order, such that the cells set by the
  call are exactly the cells of these spans; each span lies within one row, the token is a
  prefix of the text of its cells, and no shorter run of cells from the same start holds
  the token. When every cell holds one character the text of the span is the token itself.
\<close>

theorem highlight_marks_token_spans:
  assumes "highlight lay cm tm tokens fs = Inr (tm', True)"
  shows "\<exists>spans. length spans = length tokens
           \<and> list_all2 (span_in cm) tokens spans
           \<and> sorted_wrt (span_before fs) spans
           \<and> (\<forall>r c. marked tm' r c = (marked tm r c \<or> covered spans r c))
           \<and> (single_chars cm \<longrightarrow> list_all2 (span_text_is cm) tokens spans)"
proof -
  from assms obtain tokens' where
    hr: "highlight_rows [0..<height lay] cm tm tokens fs = Inr (tm', tokens')"
    and e: "tokens' = []"
    by (auto simp: highlight_def split: sum.splits)
  have "sorted_wrt (<) [0..<height lay]" by simp
  from highlight_rows_spec[OF hr this] obtain spans where
    g: "grid_spans [0..<height lay] cm fs tm tokens tm' tokens' spans" by blast
  then have le: "length spans \<le> length tokens" and d: "tokens' = drop (length spans) tokens"
    and a: "list_all2 (span_in cm) (take (length spans) tokens) spans"
    and s: "sorted_wrt (span_before fs) spans"
    and m: "\<forall>r c. marked tm' r c = (marked tm r c \<or> covered spans r c)"
    by (simp_all add: grid_spans_def)
  from e d le have l: "length spans = length tokens" by simp
  with a have a': "list_all2 (span_in cm) tokens spans" by simp
  have x: "single_chars cm \<longrightarrow> list_all2 (span_text_is cm) tokens spans"
  proof
    assume sc: "single_chars cm"
    have imp: "span_in cm token sp \<Longrightarrow> span_text_is cm token sp" for token sp
    proof -
      assume si: "span_in cm token sp"
      obtain r s e where sp: "sp = (r, s, e)" by (cases sp)
      with si have r: "r < length cm" and c: "span_covers (cm ! r) s e token"
        by (simp_all add: span_in_def)
      from sc nth_mem[OF r] have "\<forall>cell \<in> set (cm ! r). length cell = 1"
        by (auto simp: single_chars_def)
      from span_covers_single[OF c this] sp show ?thesis by (simp add: span_text_is_def)
    qed
    from a' show "list_all2 (span_text_is cm) tokens spans"
      by (rule list_all2_mono) (rule imp)
  qed
  from l a' s m x show ?thesis by blast
qed

theorem highlight_marks_token_spans_witness:
  "highlight example_layout (matrix example_layout) (createTruthMatrix 1 5) [''a'', ''half''] False
     = Inr ([[True, True, True, True, True]], True)
   \<and> (\<exists>spans. length spans = length [''a'', ''half'']
         \<and> list_all2 (span_in (matrix example_layout)) [''a'', ''half''] spans
         \<and> sorted_wrt (span_before False) spans)"
proof -
  have h: "highlight example_layout (matrix example_layout) (createTruthMatrix 1 5)
             [''a'', ''half''] False = Inr ([[True, True, True, True, True]], True)"
    by code_simp
  from highlight_marks_token_spans[OF h] h show ?thesis by blast
qed

text \<open>
  C1, as stated, fails when a token ends inside a cell: on the one-cell row holding
  \<open>ab\<close> the token \<open>a\<close> is matched and the cell is set, yet no span around that cell has a
  text equal to the token.
\<close>

theorem exact_span_counterexample:
  "highlight \<lparr>height = 1, width = 1, matrix = [[''ab'']], times_keys = []\<rparr>
      [[''ab'']] [[False]] [''a''] True = Inr ([[True]], True)
   \<and> marked [[True]] 0 0
   \<and> \<not> (\<exists>s e token. token \<in> set [''a''] \<and> s \<le> 0 \<and> 0 < e \<and> e \<le> length ([[''ab'']] ! 0)
            \<and> cells_text ([[''ab'']] ! 0) s e = token)"
proof -
  have a: "highlight \<lparr>height = 1, width = 1, matrix = [[''ab'']], times_keys = []\<rparr>
      [[''ab'']] [[False]] [''a''] True = Inr ([[True]], True)"
    by code_simp
  have b: "marked [[True]] 0 0" by (simp add: marked_def)
  have c: "\<not> (\<exists>s e token. token \<in> set [''a''] \<and> s \<le> 0 \<and> 0 < e \<and> e \<le> length ([[''ab'']] ! 0)
            \<and> cells_text ([[''ab'']] ! 0) s e = token)"
  proof
    assume "\<exists>s e token. token \<in> set [''a''] \<and> s \<le> 0 \<and> 0 < e \<and> e \<le> length ([[''ab'']] ! 0)
            \<and> cells_text ([[''ab'']] ! 0) s e = token"
    then obtain s e :: nat where "s = 0" "0 < e" "e \<le> 1" "cells_text [''ab''] s e = ''a''"
      by auto
    then have "e = 1" "cells_text [''ab''] 0 e = ''a''" by simp_all
    then show False by (simp add: cells_text_def)
  qed
  from a b c show ?thesis by blast
qed


text \<open>
  C2. On the row a, h, a, l, f with the tokens a, half and \<open>forceSpace\<close> true,
  \<open>highlightRow\<close> sets only cell 0 and returns 1 as the number of tokens consumed, and
  \<open>highlight\<close> reports failure. In general, after a match whose cells end just before
  position \<open>i1\<close> the scan goes on at \<open>i1 + 1\<close>, so that the spans matched in a row are
  separated by at least one cell.
\<close>

theorem forceSpace_skips_a_cell:
  "highlightRow example_row 0 (createTruthMatrix 1 5) [''a'', ''half''] True
     = Inr ([[True, False, False, False, False]], 1)
   \<and> highlight example_layout (matrix example_layout) (createTruthMatrix 1 5)
        [''a'', ''half''] True = Inr ([[True, False, False, False, False]], False)
   \<and> (i < int (length charRow) \<and> tokens \<noteq> []
        \<and> startswith (join (py_slice_from charRow i)) (hd tokens)
        \<and> highlightRow_mark charRow row tm (hd tokens) i = Inr (tm1, i1)
      \<longrightarrow> i \<le> i1
          \<and> highlightRow_scan charRow row tm tokens True i
              = highlightRow_scan charRow row tm1 (py_slice_from tokens 1) True (i1 + 1))
   \<and> (0 \<le> i \<and> highlightRow_scan charRow row tm tokens True i = Inr (tm', tokens')
      \<longrightarrow> (\<exists>spans. row_spans charRow row True (nat i) tm tokens tm' tokens' spans))"
proof -
  have a: "highlightRow example_row 0 (createTruthMatrix 1 5) [''a'', ''half''] True
     = Inr ([[True, False, False, False, False]], 1)"
    by code_simp
  have b: "highlight example_layout (matrix example_layout) (createTruthMatrix 1 5)
        [''a'', ''half''] True = Inr ([[True, False, False, False, False]], False)"
    by code_simp
  have c: "i < int (length charRow) \<and> tokens \<noteq> []
        \<and> startswith (join (py_slice_from charRow i)) (hd tokens)
        \<and> highlightRow_mark charRow row tm (hd tokens) i = Inr (tm1, i1)
      \<longrightarrow> i \<le> i1
          \<and> highlightRow_scan charRow row tm tokens True i
              = highlightRow_scan charRow row tm1 (py_slice_from tokens 1) True (i1 + 1)"
    using highlightRow_mark_mono[of charRow row tm "hd tokens" i tm1 i1]
      scan_match_step[of i charRow tokens row tm tm1 i1 True]
    by simp
  have d: "0 \<le> i \<and> highlightRow_scan charRow row tm tokens True i = Inr (tm', tokens')
      \<longrightarrow> (\<exists>spans. row_spans charRow row True (nat i) tm tokens tm' tokens' spans)"
    using scan_spec[of charRow row tm tokens True i tm' tokens'] by blast
  from a b c d show ?thesis by blast
qed

theorem forceSpace_skips_a_cell_witness:
  "highlightRow_scan example_row 0 (createTruthMatrix 1 5) [''a'', ''half''] True 0
     = highlightRow_scan example_row 0 [[True, False, False, False, False]] [''half''] True 2
   \<and> (\<exists>spans. row_spans example_row 0 True 0 (createTruthMatrix 1 5) [''a'', ''half'']
          [[True, False, False, False, False]] [''half''] spans)"
proof -
  have m: "highlightRow_mark example_row 0 (createTruthMatrix 1 5) (hd [''a'', ''half'']) 0
             = Inr ([[True, False, False, False, False]], 1)"
    by code_simp
  have s: "startswith (join (py_slice_from example_row 0)) (hd [''a'', ''half''])"
    by code_simp
  have l: "(0::int) < int (length example_row)" by (simp add: example_row_def)
  have r: "highlightRow_scan example_row 0 (createTruthMatrix 1 5) [''a'', ''half''] True 0
             = Inr ([[True, False, False, False, False]], [''half''])"
    by code_simp
  have p: "py_slice_from [''a'', ''half''] 1 = [''half'']" by (simp add: py_slice_from_def)
  note t = forceSpace_skips_a_cell[where i = 0 and charRow = example_row
      and tokens = "[''a'', ''half'']" and row = 0 and tm = "createTruthMatrix 1 5"
      and ?tm1.0 = "[[True, False, False, False, False]]" and ?i1.0 = 1
      and tm' = "[[True, False, False, False, False]]" and tokens' = "[''half'']"]
  from t m s l p have x: "highlightRow_scan example_row 0 (createTruthMatrix 1 5) [''a'', ''half''] True 0
     = highlightRow_scan example_row 0 [[True, False, False, False, False]] [''half''] True 2"
    by simp
  from t r have y: "\<exists>spans. row_spans example_row 0 True 0 (createTruthMatrix 1 5) [''a'', ''half'']
          [[True, False, False, False, False]] [''half''] spans"
    by simp
  from x y show ?thesis by blast
qed


text \<open>
  C5. \<open>highlight\<close> is the loop over the rows 0, 1, ... up to the height of the layout, in
  that order, and reports whether no token is left; with no tokens it returns success at
  once and leaves the truth matrix as it is, and the loop stops on an empty token list
  whatever rows remain. On a row, \<open>highlightRow\<close> consumes a prefix of the tokens, each
  matched by a span inside that row, and the rows below are visited with the truth matrix
  and the tokens this row leaves. A leading token that starts at no position of the row is
  not matched there: nothing is consumed and nothing is set. Whatever \<open>highlight\<close> returns,
  the spans it matched lie each within one row of the grid and follow each other in
  row-major order, and it succeeds exactly when there is a span for every token.
\<close>

theorem highlight_rows_carry_tokens:
  "highlight_rows rows cm tm [] fs = Inr (tm, [])
   \<and> (tokens \<noteq> [] \<and> py_getitem cm (int row) = Inr charRow
        \<and> highlightRow charRow row tm tokens fs = Inr (tm1, consumed)
      \<longrightarrow> 0 \<le> consumed \<and> consumed \<le> int (length tokens)
          \<and> highlight_rows (row # rows) cm tm tokens fs
              = highlight_rows rows cm tm1 (drop (nat consumed) tokens) fs
          \<and> (\<exists>spans. length spans = nat consumed
                \<and> list_all2 (\<lambda>token (s, e). span_covers charRow s e token)
                      (take (nat consumed) tokens) spans))
   \<and> (tokens \<noteq> []
        \<and> (\<forall>j < length charRow.
               \<not> startswith (join (py_slice_from charRow (int j))) (hd tokens))
      \<longrightarrow> highlightRow charRow row tm tokens fs = Inr (tm, 0))
   \<and> highlight lay cm tm tokens fs
        = (case highlight_rows [0..<height lay] cm tm tokens fs of
             Inl e \<Rightarrow> Inl e
           | Inr (tm', tokens') \<Rightarrow> Inr (tm', length tokens' = 0))
   \<and> highlight lay cm tm [] fs = Inr (tm, True)
   \<and> (row < height lay \<and> tokens \<noteq> [] \<and> py_getitem cm (int row) = Inr charRow
        \<and> highlightRow charRow row tm tokens fs = Inr (tm1, consumed)
      \<longrightarrow> highlight_rows [row..<height lay] cm tm tokens fs
            = highlight_rows [Suc row..<height lay] cm tm1 (drop (nat consumed) tokens) fs)
   \<and> (highlight lay cm tm tokens fs = Inr (tm2, ok)
      \<longrightarrow> (\<exists>spans. grid_spans [0..<height lay] cm fs tm tokens tm2
                       (drop (length spans) tokens) spans
                \<and> ok = (length spans = length tokens)))"
proof -
  have a: "highlight_rows rows cm tm [] fs = Inr (tm, [])" for rows
    by (cases rows) simp_all
  have b: "tokens \<noteq> [] \<and> py_getitem cm (int row) = Inr charRow
        \<and> highlightRow charRow row tm tokens fs = Inr (tm1, consumed)
      \<longrightarrow> 0 \<le> consumed \<and> consumed \<le> int (length tokens)
          \<and> highlight_rows (row # rows) cm tm tokens fs
              = highlight_rows rows cm tm1 (drop (nat consumed) tokens) fs
          \<and> (\<exists>spans. length spans = nat consumed
                \<and> list_all2 (\<lambda>token (s, e). span_covers charRow s e token)
                      (take (nat consumed) tokens) spans)" for rows
  proof
    assume h: "tokens \<noteq> [] \<and> py_getitem cm (int row) = Inr charRow
        \<and> highlightRow charRow row tm tokens fs = Inr (tm1, consumed)"
    then have hr: "highlightRow charRow row tm tokens fs = Inr (tm1, consumed)" by simp
    from highlightRow_spec[OF hr] obtain spans where
      c: "consumed = int (length spans)" and
      rs: "row_spans charRow row fs 0 tm tokens tm1 (drop (length spans) tokens) spans"
      by blast
    from rs have le: "length spans \<le> length tokens"
      and al: "list_all2 (\<lambda>token (s, e). span_covers charRow s e token)
                 (take (length spans) tokens) spans"
      by (simp_all add: row_spans_def)
    have st: "highlight_rows (row # rows) cm tm tokens fs
              = highlight_rows rows cm tm1 (drop (nat consumed) tokens) fs"
      using highlight_rows_step[of tokens cm row charRow tm fs tm1 consumed rows] h c
      by (simp add: py_slice_from_nat)
    from c le al st show "0 \<le> consumed \<and> consumed \<le> int (length tokens)
          \<and> highlight_rows (row # rows) cm tm tokens fs
              = highlight_rows rows cm tm1 (drop (nat consumed) tokens) fs
          \<and> (\<exists>spans. length spans = nat consumed
                \<and> list_all2 (\<lambda>token (s, e). span_covers charRow s e token)
                      (take (nat consumed) tokens) spans)"
      by auto
  qed
  have c: "tokens \<noteq> []
        \<and> (\<forall>j < length charRow.
               \<not> startswith (join (py_slice_from charRow (int j))) (hd tokens))
      \<longrightarrow> highlightRow charRow row tm tokens fs = Inr (tm, 0)"
  proof
    assume h: "tokens \<noteq> []
        \<and> (\<forall>j < length charRow.
               \<not> startswith (join (py_slice_from charRow (int j))) (hd tokens))"
    then obtain token rest where tk: "tokens = token # rest" by (cases tokens) auto
    with h have "\<forall>j. 0 \<le> j \<and> j < length charRow \<longrightarrow> \<not> prefix token (concat (drop j charRow))"
      by (simp add: startswith_def join_def py_slice_from_nat)
    from scan_no_match[OF this, of row tm rest fs]
    show "highlightRow charRow row tm tokens fs = Inr (tm, 0)"
      by (simp add: highlightRow_def tk)
  qed
  have d: "highlight lay cm tm tokens fs
        = (case highlight_rows [0..<height lay] cm tm tokens fs of
             Inl e \<Rightarrow> Inl e
           | Inr (tm', tokens') \<Rightarrow> Inr (tm', length tokens' = 0))"
    by (simp add: highlight_def)
  have e: "highlight lay cm tm [] fs = Inr (tm, True)"
    by (simp add: highlight_def a)
  have f: "row < height lay \<and> tokens \<noteq> [] \<and> py_getitem cm (int row) = Inr charRow
        \<and> highlightRow charRow row tm tokens fs = Inr (tm1, consumed)
      \<longrightarrow> highlight_rows [row..<height lay] cm tm tokens fs
            = highlight_rows [Suc row..<height lay] cm tm1 (drop (nat consumed) tokens) fs"
    using b[of "[Suc row..<height lay]"] by (auto simp: upt_conv_Cons)
  have g: "highlight lay cm tm tokens fs = Inr (tm2, ok)
      \<longrightarrow> (\<exists>spans. grid_spans [0..<height lay] cm fs tm tokens tm2
                       (drop (length spans) tokens) spans
                \<and> ok = (length spans = length tokens))"
    using highlight_spec[of lay cm tm tokens fs tm2 ok] by blast
  from a[of rows] b[of rows] c d e f g show ?thesis by blast
qed

theorem highlight_rows_carry_tokens_witness:
  "highlight_rows [0, 1] [example_row, [''h'', ''a'', ''l'', ''f'', ''x'']] (createTruthMatrix 2 5)
      [''a'', ''half''] True
     = highlight_rows [1] [example_row, [''h'', ''a'', ''l'', ''f'', ''x'']]
         [[True, False, False, False, False], [False, False, False, False, False]]
         [''half''] True
   \<and> highlightRow [''x'', ''y''] 0 (createTruthMatrix 1 2) [''half''] True
       = Inr (createTruthMatrix 1 2, 0)
   \<and> highlight \<lparr>height = 2, width = 5,
          matrix = [example_row, [''h'', ''a'', ''l'', ''f'', ''x'']], times_keys = []\<rparr>
        [example_row, [''h'', ''a'', ''l'', ''f'', ''x'']] (createTruthMatrix 2 5)
        [''a'', ''half''] True
       = Inr ([[True, False, False, False, False], [True, True, True, True, False]], True)"
proof -
  let ?cm = "[example_row, [''h'', ''a'', ''l'', ''f'', ''x'']]"
  let ?tm1 = "[[True, False, False, False, False], [False, False, False, False, False]]"
  let ?lay = "\<lparr>height = 2, width = 5, matrix = ?cm, times_keys = []\<rparr>"
  have g: "py_getitem ?cm (int 0) = Inr example_row"
    by (simp add: py_getitem_def py_index_def)
  have h: "highlightRow example_row 0 (createTruthMatrix 2 5) [''a'', ''half''] True
             = Inr (?tm1, 1)"
    by code_simp
  note t = highlight_rows_carry_tokens[where tokens = "[''a'', ''half'']" and cm = ?cm
      and row = 0 and charRow = example_row and tm = "createTruthMatrix 2 5" and fs = True
      and ?tm1.0 = ?tm1 and consumed = 1 and rows = "[1]" and lay = ?lay]
  from t g h have x: "highlight_rows [0, 1] ?cm (createTruthMatrix 2 5) [''a'', ''half''] True
     = highlight_rows [1] ?cm ?tm1 [''half''] True"
    by simp
  have n: "\<forall>j < length [''x'', ''y''].
             \<not> startswith (join (py_slice_from [''x'', ''y''] (int j))) (hd [''half''])"
    by (auto simp: less_Suc_eq startswith_def join_def py_slice_from_nat)
  note u = highlight_rows_carry_tokens[where tokens = "[''half'']" and charRow = "[''x'', ''y'']"
      and row = 0 and tm = "createTruthMatrix 1 2" and fs = True]
  from u n have y: "highlightRow [''x'', ''y''] 0 (createTruthMatrix 1 2) [''half''] True
       = Inr (createTruthMatrix 1 2, 0)"
    by simp
  have r: "highlight_rows [0..<height ?lay] ?cm (createTruthMatrix 2 5) [''a'', ''half''] True
       = Inr ([[True, False, False, False, False], [True, True, True, True, False]], [])"
    by code_simp
  from t have "highlight ?lay ?cm (createTruthMatrix 2 5) [''a'', ''half''] True
        = (case highlight_rows [0..<height ?lay] ?cm (createTruthMatrix 2 5) [''a'', ''half''] True of
             Inl e \<Rightarrow> Inl e
           | Inr (tm', tokens') \<Rightarrow> Inr (tm', length tokens' = 0))"
    by blast
  with r have z: "highlight ?lay ?cm (createTruthMatrix 2 5) [''a'', ''half''] True
       = Inr ([[True, False, False, False, False], [True, True, True, True, False]], True)"
    by simp
  from x y z show ?thesis by blast
qed


text \<open>
  C4. On a layout whose matrix has the stated dimensions, a step raises nothing: it runs
  \<open>highlight\<close> with \<open>forceSpace\<close> true on a fresh truth matrix, and when that does not
  consume all tokens it runs it once more with \<open>forceSpace\<close> false on another fresh truth
  matrix; the matrix of the last attempt made is drawn whether or not that attempt
  succeeded, and the step makes exactly one call of \<open>drawMatrix\<close>.
\<close>

theorem step_retry_policy:
  assumes "wf_layout (layout self)"
  shows "\<exists>tm1 ok1 tm2 ok2.
      highlight (layout self) (matrix (layout self))
        (createTruthMatrix (height (layout self)) (width (layout self))) (solver self time) True
        = Inr (tm1, ok1)
    \<and> highlight (layout self) (matrix (layout self))
        (createTruthMatrix (height (layout self)) (width (layout self))) (solver self time) False
        = Inr (tm2, ok2)
    \<and> step self time = Inr (self\<lparr>window := window self @ [if ok1 then tm1 else tm2]\<rparr>)"
proof -
  from highlight_ok[OF assms, of "solver self time" True] obtain tm1 ok1 where
    a: "highlight (layout self) (matrix (layout self))
        (createTruthMatrix (height (layout self)) (width (layout self))) (solver self time) True
        = Inr (tm1, ok1)" by blast
  from highlight_ok[OF assms, of "solver self time" False] obtain tm2 ok2 where
    b: "highlight (layout self) (matrix (layout self))
        (createTruthMatrix (height (layout self)) (width (layout self))) (solver self time) False
        = Inr (tm2, ok2)" by blast
  have "step self time = Inr (self\<lparr>window := window self @ [if ok1 then tm1 else tm2]\<rparr>)"
    using a b by (simp add: step_def Let_def drawMatrix_def)
  with a b show ?thesis by blast
qed

theorem step_retry_policy_witness:
  "step example_thread (Time 0)
     = Inr (example_thread\<lparr>window := [[[True, True, True, True, True]]]\<rparr>)"
proof -
  have w: "wf_layout (layout example_thread)"
    by (simp add: wf_layout_def example_thread_def example_layout_def example_row_def)
  have a: "highlight (layout example_thread) (matrix (layout example_thread))
        (createTruthMatrix (height (layout example_thread)) (width (layout example_thread)))
        (solver example_thread (Time 0)) True = Inr ([[True, False, False, False, False]], False)"
    by code_simp
  have b: "highlight (layout example_thread) (matrix (layout example_thread))
        (createTruthMatrix (height (layout example_thread)) (width (layout example_thread)))
        (solver example_thread (Time 0)) False = Inr ([[True, True, True, True, True]], True)"
    by code_simp
  from step_retry_policy[OF w, of "Time 0"] a b show ?thesis
    by (auto simp: example_thread_def)
qed


text \<open>
  C10. A call of \<open>highlightRow\<close> or of \<open>highlight\<close> leaves the caller's token list as it
  was, and with it every list object that existed before the call: the tokens are consumed
  by slices, which are new objects, and the result is the one computed on the content of
  the list. So in a step the list the solver returned is the same, unmodified, for the
  second attempt, and is still so after the step.
\<close>

theorem token_list_not_mutated:
  "(tokens < length h \<longrightarrow>
      heap_extends h (fst (highlightRow_h charRow row tm h tokens fs))
    \<and> fst (highlightRow_h charRow row tm h tokens fs) ! tokens = h ! tokens
    \<and> snd (highlightRow_h charRow row tm h tokens fs)
        = highlightRow charRow row tm (h ! tokens) fs
    \<and> heap_extends h (fst (highlight_h lay cm tm h tokens fs))
    \<and> fst (highlight_h lay cm tm h tokens fs) ! tokens = h ! tokens
    \<and> snd (highlight_h lay cm tm h tokens fs) = highlight lay cm tm (h ! tokens) fs)
   \<and> heap_extends h (fst (step_h self time h))
   \<and> fst (step_h self time h) ! length h = solver self time
   \<and> snd (step_h self time h) = step self time"
proof -
  have a: "tokens < length h \<longrightarrow>
      heap_extends h (fst (highlightRow_h charRow row tm h tokens fs))
    \<and> fst (highlightRow_h charRow row tm h tokens fs) ! tokens = h ! tokens
    \<and> snd (highlightRow_h charRow row tm h tokens fs)
        = highlightRow charRow row tm (h ! tokens) fs"
    using highlightRow_h_spec[of tokens h charRow row tm fs]
      heap_extends_nth[of h "fst (highlightRow_h charRow row tm h tokens fs)" tokens]
    by blast
  have b: "tokens < length h \<longrightarrow>
      heap_extends h (fst (highlight_h lay cm tm h tokens fs))
    \<and> fst (highlight_h lay cm tm h tokens fs) ! tokens = h ! tokens
    \<and> snd (highlight_h lay cm tm h tokens fs) = highlight lay cm tm (h ! tokens) fs"
    using highlight_h_spec[of tokens h lay cm tm fs]
      heap_extends_nth[of h "fst (highlight_h lay cm tm h tokens fs)" tokens]
    by blast
  have e: "heap_extends (h @ [solver self time]) (fst (step_h self time h))"
    and r: "snd (step_h self time h) = step self time"
    using step_h_spec[of h self time] by simp_all
  have c: "heap_extends h (fst (step_h self time h))"
    using heap_extends_new e by (rule heap_extends_trans)
  have "length h < length (h @ [solver self time])" by simp
  from heap_extends_nth[OF e this]
  have d: "fst (step_h self time h) ! length h = solver self time" by simp
  from a b c d r show ?thesis by blast
qed

theorem token_list_not_mutated_witness:
  "fst (highlight_h example_layout (matrix example_layout) (createTruthMatrix 1 5)
          [[''a'', ''half'']] 0 False) ! 0 = [''a'', ''half'']
   \<and> snd (highlight_h example_layout (matrix example_layout) (createTruthMatrix 1 5)
          [[''a'', ''half'']] 0 False) = Inr ([[True, True, True, True, True]], True)
   \<and> fst (highlightRow_h example_row 0 (createTruthMatrix 1 5) [[''a'', ''half'']] 0 True) ! 0
       = [''a'', ''half'']
   \<and> fst (step_h example_thread (Time 0) []) ! 0 = [''a'', ''half'']
   \<and> snd (step_h example_thread (Time 0) []) = step example_thread (Time 0)"
proof -
  have p: "highlight example_layout (matrix example_layout) (createTruthMatrix 1 5)
             [''a'', ''half''] False = Inr ([[True, True, True, True, True]], True)"
    by code_simp
  note t = token_list_not_mutated[where tokens = 0 and h = "[[''a'', ''half'']]"
      and lay = example_layout and cm = "matrix example_layout"
      and tm = "createTruthMatrix 1 5" and fs = False]
  note u = token_list_not_mutated[where tokens = 0 and h = "[[''a'', ''half'']]"
      and charRow = example_row and row = 0
      and tm = "createTruthMatrix 1 5" and fs = True]
  note v = token_list_not_mutated[where h = "[]" and self = example_thread and time = "Time 0"]
  from t p have x: "fst (highlight_h example_layout (matrix example_layout) (createTruthMatrix 1 5)
          [[''a'', ''half'']] 0 False) ! 0 = [''a'', ''half'']
   \<and> snd (highlight_h example_layout (matrix example_layout) (createTruthMatrix 1 5)
          [[''a'', ''half'']] 0 False) = Inr ([[True, True, True, True, True]], True)"
    by simp
  from u have y: "fst (highlightRow_h example_row 0 (createTruthMatrix 1 5)
          [[''a'', ''half'']] 0 True) ! 0 = [''a'', ''half'']"
    by simp
  from v have z: "fst (step_h example_thread (Time 0) []) ! 0 = [''a'', ''half'']
   \<and> snd (step_h example_thread (Time 0) []) = step example_thread (Time 0)"
    by (simp add: example_thread_def)
  from x y z show ?thesis by blast
qed


end
